theory Spec2Isabelle
  imports Complex_Main "HOL-Library.Sublist" "HOL-Library.AList" "HOL-Library.Code_Target_Nat"
begin

section \<open>Strings\<close>

text \<open>
  A Python \<open>str\<close> is a sequence of Unicode code points and \<open>len\<close> counts code points, so a
  string is a list of code points, each a natural number. \<open>u\<close> writes an ASCII literal.
\<close>

type_synonym codepoint = nat
type_synonym str = "codepoint list"

definition u :: "string \<Rightarrow> str" where
  "u s = map of_char s"

text \<open>
  \<open>str.strip()\<close> and the regular-expression class \<open>\s\<close> (on a \<open>str\<close> pattern) use the same
  predicate, \<open>str.isspace\<close>: the code points below.
\<close>

definition is_space :: "codepoint \<Rightarrow> bool" where
  "is_space c = ((9 \<le> c \<and> c \<le> 13) \<or> (28 \<le> c \<and> c \<le> 32) \<or> c = 133 \<or> c = 160
     \<or> c = 5760 \<or> (8192 \<le> c \<and> c \<le> 8202) \<or> c = 8232 \<or> c = 8233 \<or> c = 8239
     \<or> c = 8287 \<or> c = 12288)"

text \<open>
  \<open>\d\<close> on a \<open>str\<close> pattern is \<open>str.isdecimal\<close>, the Unicode category Nd: runs of ten code
  points, each starting at a digit zero (Unicode 14.0, the table of CPython 3.11).
\<close>

definition decimal_zeros :: "codepoint list" where
  "decimal_zeros = [48, 1632, 1776, 1984, 2406, 2534, 2662, 2790, 2918, 3046, 3174, 3302,
     3430, 3558, 3664, 3792, 3872, 4160, 4240, 6112, 6160, 6470, 6608, 6784, 6800, 6992, 7088,
     7232, 7248, 42528, 43216, 43264, 43472, 43504, 43600, 44016, 65296, 66720, 68912, 69734,
     69872, 69942, 70096, 70384, 70736, 70864, 71248, 71360, 71472, 71904, 72016, 72784, 73040,
     73120, 92768, 92864, 93008, 120782, 120792, 120802, 120812, 120822, 123200, 123632,
     125264, 130032]"

definition is_decimal :: "codepoint \<Rightarrow> bool" where
  "is_decimal c = list_ex (\<lambda>z. z \<le> c \<and> c < z + 10) decimal_zeros"

definition is_quote :: "codepoint \<Rightarrow> bool" where
  "is_quote c = (c = 39 \<or> c = 34)"

text \<open>\<open>s.strip()\<close>: leading and trailing whitespace removed.\<close>

definition lstrip :: "str \<Rightarrow> str" where
  "lstrip s = dropWhile is_space s"

definition rstrip :: "str \<Rightarrow> str" where
  "rstrip s = rev (dropWhile is_space (rev s))"

definition strip :: "str \<Rightarrow> str" where
  "strip s = rstrip (lstrip s)"

definition startswith :: "str \<Rightarrow> str \<Rightarrow> bool" where
  "startswith s p = prefix p s"

text \<open>
  \<open>s.split(sep)\<close> for a non-empty separator: the pieces between the non-overlapping
  occurrences of \<open>sep\<close>, found from the left. (Python raises \<open>ValueError\<close> on an empty
  separator; every separator in the program is a non-empty literal.) \<open>acc\<close> is the piece
  being read.
\<close>

function split_from :: "str \<Rightarrow> str \<Rightarrow> str \<Rightarrow> str list" where
  "split_from sep acc [] = [acc]"
| "split_from sep acc (c # cs) =
     (if sep \<noteq> [] \<and> prefix sep (c # cs)
      then acc # split_from sep [] (drop (length sep) (c # cs))
      else split_from sep (acc @ [c]) cs)"
  by pat_completeness auto
termination
  by (relation "measure (\<lambda>(sep, acc, s). length s)") (auto simp: neq_Nil_conv)

definition str_split :: "str \<Rightarrow> str \<Rightarrow> str list" where
  "str_split s sep = split_from sep [] s"

section \<open>Regular expressions\<close>

text \<open>
  The fragment of Python's \<open>re\<close> that the program's patterns use: a character class, sequence,
  alternation (the left branch is tried first), greedy \<open>+\<close> on a character class, and the
  anchors \<open>^\<close> and \<open>$\<close> without the MULTILINE flag. The matcher backtracks as \<open>re\<close> does: it
  runs the pattern at the current position against the rest of the string and passes what is
  left to a continuation, which may refuse it. The flag says whether the position is the
  start of the string.
\<close>

datatype re =
    Sym "codepoint \<Rightarrow> bool"
  | Seq re re
  | Alt re re
  | Plus "codepoint \<Rightarrow> bool"
  | Bol
  | Eol

fun star_sym :: "(codepoint \<Rightarrow> bool) \<Rightarrow> str \<Rightarrow> (str \<Rightarrow> str option) \<Rightarrow> str option" where
  "star_sym p [] k = k []"
| "star_sym p (c # cs) k =
     (if p c then (case star_sym p cs k of Some r \<Rightarrow> Some r | None \<Rightarrow> k (c # cs))
      else k (c # cs))"

fun match_at :: "re \<Rightarrow> bool \<Rightarrow> str \<Rightarrow> (bool \<Rightarrow> str \<Rightarrow> str option) \<Rightarrow> str option" where
  "match_at (Sym p) b s k = (case s of [] \<Rightarrow> None | c # cs \<Rightarrow> if p c then k False cs else None)"
| "match_at (Seq r1 r2) b s k = match_at r1 b s (\<lambda>b' s'. match_at r2 b' s' k)"
| "match_at (Alt r1 r2) b s k =
     (case match_at r1 b s k of Some r \<Rightarrow> Some r | None \<Rightarrow> match_at r2 b s k)"
| "match_at (Plus p) b s k =
     (case s of [] \<Rightarrow> None | c # cs \<Rightarrow> if p c then star_sym p cs (k False) else None)"
| "match_at Bol b s k = (if b then k b s else None)"
| "match_at Eol b s k = (if s = [] \<or> s = [10] then k b s else None)"

text \<open>
  \<open>re.sub(pattern, repl, string)\<close>: the leftmost non-overlapping matches are replaced by
  \<open>repl\<close>, the search going on where the last match ended. The patterns of the program match
  at least one character; a position where a pattern would match the empty string is
  treated as no match (the empty-match rule of \<open>re.sub\<close> is never needed).
\<close>

function sub_from :: "re \<Rightarrow> str \<Rightarrow> bool \<Rightarrow> str \<Rightarrow> str" where
  "sub_from r repl b [] = []"
| "sub_from r repl b (c # cs) =
     (case match_at r b (c # cs) (\<lambda>_ t. Some t) of
        None \<Rightarrow> c # sub_from r repl False cs
      | Some t \<Rightarrow>
          if length t < length (c # cs) then repl @ sub_from r repl False t
          else c # sub_from r repl False cs)"
  by pat_completeness auto
termination
  by (relation "measure (\<lambda>(r, repl, b, s). length s)") auto

definition re_sub :: "re \<Rightarrow> str \<Rightarrow> str \<Rightarrow> str" where
  "re_sub r repl s = sub_from r repl True s"

section \<open>Response normalizer\<close>

text \<open>The patterns of \<open>normalize_message_filter\<close>, in the order of the source.\<close>

definition is_char :: "codepoint \<Rightarrow> codepoint \<Rightarrow> bool" where
  "is_char a c = (c = a)"

definition re_marker :: re where
  \<comment> \<open>\<^verbatim>\<open>^(\d+\.|-|\*)\s+\<close>\<close>
  "re_marker = Seq Bol (Seq (Alt (Seq (Plus is_decimal) (Sym (is_char 46)))
                                 (Alt (Sym (is_char 45)) (Sym (is_char 42))))
                            (Plus is_space))"

definition re_initial_quote :: re where
  \<comment> \<open>\<^verbatim>\<open>^['"]\<close>\<close>
  "re_initial_quote = Seq Bol (Sym is_quote)"

definition re_trailing_quote :: re where
  \<comment> \<open>\<^verbatim>\<open>['"]$\<close>\<close>
  "re_trailing_quote = Seq (Sym is_quote) Eol"

definition re_quote_colon :: re where
  \<comment> \<open>\<^verbatim>\<open>['"]:\<close>\<close>
  "re_quote_colon = Seq (Sym is_quote) (Sym (is_char 58))"

definition re_colon_quote :: re where
  \<comment> \<open>\<^verbatim>\<open>:['"]\<close>\<close>
  "re_colon_quote = Seq (Sym (is_char 58)) (Sym is_quote)"

definition re_backslash_n :: re where
  \<comment> \<open>\<^verbatim>\<open>\\n\<close>: a backslash followed by the letter n\<close>
  "re_backslash_n = Seq (Sym (is_char 92)) (Sym (is_char 110))"

definition normalize_message_filter :: "str \<Rightarrow> str" where
  "normalize_message_filter message =
     (let message = strip message;
          message = re_sub re_marker [] message;
          message = re_sub re_initial_quote [] message;
          message = re_sub re_trailing_quote [] message;
          message = re_sub re_quote_colon [58] message;
          message = re_sub re_colon_quote [58] message;
          message = re_sub re_backslash_n [] message
      in strip message)"

definition normalize_messages :: "str \<Rightarrow> str list" where
  "normalize_messages response =
     (let messages = drop 1 (str_split response [10])
      in [normalize_message_filter message. message \<leftarrow> messages, length message > 1])"

section \<open>JSON values, dictionaries and exceptions\<close>

text \<open>
  What \<open>json.load\<close> and \<open>response.json()\<close> return. A \<open>dict\<close> is an association list in
  insertion order with distinct keys; assigning to an existing key keeps its place.
\<close>

datatype json =
    JNull
  | JBool bool
  | JInt int
  | JFloat rat
  | JStr str
  | JList "json list"
  | JObj "(str \<times> json) list"

type_synonym dict = "(str \<times> json) list"

text \<open>
  The exceptions the program can meet. \<open>KeyboardInterrupt\<close> is the only one that is not a
  subclass of \<open>Exception\<close>; \<open>OtherException\<close> stands for every other subclass of it
  (\<open>OSError\<close>, \<open>HTTPError\<close>, \<open>JSONDecodeError\<close>, ...).
\<close>

datatype exn =
    CalledProcessError
  | KeyboardInterrupt
  | KeyError
  | IndexError
  | TypeError
  | AttributeError
  | OtherException

definition is_Exception :: "exn \<Rightarrow> bool" where
  "is_Exception e = (e \<noteq> KeyboardInterrupt)"

definition dict_get :: "dict \<Rightarrow> str \<Rightarrow> exn + json" where
  \<comment> \<open>\<open>d[k]\<close> on a dict\<close>
  "dict_get d k = (case map_of d k of None \<Rightarrow> Inl KeyError | Some v \<Rightarrow> Inr v)"

definition dict_set :: "dict \<Rightarrow> str \<Rightarrow> json \<Rightarrow> dict" where
  \<comment> \<open>\<open>d[k] = v\<close>\<close>
  "dict_set d k v = AList.update k v d"

definition subscript_key :: "json \<Rightarrow> str \<Rightarrow> exn + json" where
  \<comment> \<open>\<open>x['key']\<close> on a parsed JSON value: only a dict accepts a string subscript\<close>
  "subscript_key x k = (case x of JObj d \<Rightarrow> dict_get d k | _ \<Rightarrow> Inl TypeError)"

definition subscript_0 :: "json \<Rightarrow> exn + json" where
  \<comment> \<open>\<open>x[0]\<close> on a parsed JSON value; the keys of a parsed dict are strings, never \<open>0\<close>\<close>
  "subscript_0 x =
     (case x of
        JList [] \<Rightarrow> Inl IndexError
      | JList (y # _) \<Rightarrow> Inr y
      | JStr [] \<Rightarrow> Inl IndexError
      | JStr (c # _) \<Rightarrow> Inr (JStr [c])
      | JObj _ \<Rightarrow> Inl KeyError
      | _ \<Rightarrow> Inl TypeError)"

definition MODEL_NAME :: str where "MODEL_NAME = u ''MODEL_NAME''"
definition OPENAI_API_KEY :: str where "OPENAI_API_KEY = u ''OPENAI_API_KEY''"
definition TASK_PREFIX :: str where "TASK_PREFIX = u ''TASK_PREFIX''"
definition OPENAI_API_URL :: str where "OPENAI_API_URL = u ''OPENAI_API_URL''"
definition MAX_TOKEN_COUNT :: str where "MAX_TOKEN_COUNT = u ''MAX_TOKEN_COUNT''"
definition TEMPERATURE :: str where "TEMPERATURE = u ''TEMPERATURE''"
definition GIT_COMMAND :: str where "GIT_COMMAND = u ''GIT_COMMAND''"
definition MESSAGE_TEMPLATE :: str where "MESSAGE_TEMPLATE = u ''MESSAGE_TEMPLATE''"
definition YOUR_TOKEN_KEY :: str where "YOUR_TOKEN_KEY = u ''YOUR_TOKEN_KEY''"
definition YOUR_TASK_PREFIX :: str where "YOUR_TASK_PREFIX = u ''YOUR_TASK_PREFIX''"

section \<open>The outside world and the trace of a run\<close>

text \<open>
  The request sent to the API and the response object that \<open>requests.post\<close> returns:
  whether \<open>raise_for_status()\<close> passes, and what \<open>json()\<close> gives.
\<close>

record request =
  model :: json
  content :: str
  temperature :: json

record response =
  status_ok :: bool
  body :: "exn + json"

text \<open>
  Everything the program gets from outside, as the outcome of each call: the value
  returned, or the exception raised (\<open>Inl\<close>). \<open>git_branch\<close> is indexed by the number of the
  lookup (\<open>0\<close> in \<open>add_prefix_to_suggestions\<close>, \<open>1\<close> in \<open>get_prefix_name\<close>).
\<close>

record world =
  config_file :: "exn + json"
  input_api_key :: "exn + str"
  input_task_prefix :: "exn + str"
  config_write :: "dict \<Rightarrow> exn option"
  git_diff :: "json \<Rightarrow> exn + str"
  str_format :: "str \<Rightarrow> str \<Rightarrow> str \<Rightarrow> exn + str"
  tokens :: "request \<Rightarrow> exn + int"
  confirm_proceed :: "exn + bool option"
  http_post :: "json \<Rightarrow> json \<Rightarrow> request \<Rightarrow> exn + response"
  git_branch :: "nat \<Rightarrow> exn + str"
  choose_message :: "str list \<Rightarrow> exn + str"
  input_message :: "exn + str"
  git_commit :: "str \<Rightarrow> exn + str"

text \<open>
  The stages of the pipeline, each one function of the program: \<open>get_git_diff\<close>,
  \<open>prepare_request_data\<close>, \<open>send_request_to_openai\<close>, \<open>process_response\<close>,
  \<open>add_prefix_to_suggestions\<close>, \<open>prompt_for_commit_message\<close>, \<open>make_commit\<close>.
\<close>

datatype stage =
    ObtainDiff
  | BuildRequest
  | CallApi
  | NormalizeResponse
  | PrefixByBranch
  | PromptUser
  | Commit

text \<open>
  The trace of a run, in the order in which things happen: the entries into the stage
  functions (\<open>Enter\<close>) and the calls to the outside (the files, the user, the subprocesses,
  the tokenizer and the HTTP request).
\<close>

datatype event =
    Enter stage
  | ReadConfig
  | AskApiKey
  | AskTaskPrefix
  | WriteConfig dict
  | RunGitDiff
  | CountTokens
  | AskProceed
  | HttpPost
  | BranchLookup
  | ChooseMessage "str list"
  | AskMessage
  | RunGitCommit str

text \<open>A computation: the events it caused, and its value or the exception it raised.\<close>

type_synonym 'a comp = "event list \<times> (exn + 'a)"

definition ret :: "'a \<Rightarrow> 'a comp" where
  "ret x = ([], Inr x)"

definition raise :: "exn \<Rightarrow> 'a comp" where
  "raise e = ([], Inl e)"

definition call :: "event \<Rightarrow> (exn + 'a) \<Rightarrow> 'a comp" where
  \<comment> \<open>a call to the outside: one event, and the outcome the world gives\<close>
  "call ev outcome = ([ev], outcome)"

definition enter :: "stage \<Rightarrow> unit comp" where
  "enter s = ([Enter s], Inr ())"

definition lift :: "(exn + 'a) \<Rightarrow> 'a comp" where
  "lift outcome = ([], outcome)"

definition bind :: "'a comp \<Rightarrow> ('a \<Rightarrow> 'b comp) \<Rightarrow> 'b comp" where
  "bind m f =
     (case m of
        (t, Inl e) \<Rightarrow> (t, Inl e)
      | (t, Inr x) \<Rightarrow> (case f x of (t', r) \<Rightarrow> (t @ t', r)))"

definition try_except :: "'a comp \<Rightarrow> (exn \<Rightarrow> 'a comp option) \<Rightarrow> 'a comp" where
  \<comment> \<open>\<open>try: m except ...\<close>: the handler says which exceptions it catches\<close>
  "try_except m h =
     (case m of
        (t, Inl e) \<Rightarrow> (case h e of None \<Rightarrow> (t, Inl e) | Some (t', r) \<Rightarrow> (t @ t', r))
      | (t, Inr x) \<Rightarrow> (t, Inr x))"

section \<open>Configuration loader\<close>

text \<open>
  \<open>load_config\<close>: every exception is logged and raised again, so it reaches the caller
  as it is. The file written is the event \<open>WriteConfig\<close> with the dict dumped.
\<close>

definition json_eq_str :: "json \<Rightarrow> str \<Rightarrow> bool" where
  \<comment> \<open>\<open>value == "literal"\<close>: only a string equals a string\<close>
  "json_eq_str v s = (case v of JStr t \<Rightarrow> t = s | _ \<Rightarrow> False)"

definition as_dict :: "json \<Rightarrow> exn + dict" where
  \<comment> \<open>a string subscript on anything but a dict is a \<open>TypeError\<close>\<close>
  "as_dict v = (case v of JObj d \<Rightarrow> Inr d | _ \<Rightarrow> Inl TypeError)"

definition load_config :: "world \<Rightarrow> dict comp" where
  "load_config w =
     bind (call ReadConfig (config_file w)) (\<lambda>parsed.
     bind (lift (as_dict parsed)) (\<lambda>config.
     bind (lift (dict_get config OPENAI_API_KEY)) (\<lambda>key.
     bind (if json_eq_str key YOUR_TOKEN_KEY
           then bind (call AskApiKey (input_api_key w)) (\<lambda>entered.
                  ret (dict_set config OPENAI_API_KEY (JStr entered)))
           else ret config) (\<lambda>config.
     bind (lift (dict_get config TASK_PREFIX)) (\<lambda>task_prefix.
     if json_eq_str task_prefix YOUR_TASK_PREFIX
     then bind (call AskTaskPrefix (input_task_prefix w)) (\<lambda>entered.
          let config = dict_set config TASK_PREFIX (JStr entered)
          in bind (call (WriteConfig config)
                     (case config_write w config of Some e \<Rightarrow> Inl e | None \<Rightarrow> Inr ()))
               (\<lambda>_. ret config))
     else ret config)))))"

section \<open>Diff fetcher\<close>

definition get_git_diff :: "dict \<Rightarrow> world \<Rightarrow> str option comp" where
  "get_git_diff config w =
     bind (enter ObtainDiff) (\<lambda>_.
     bind (lift (dict_get config GIT_COMMAND)) (\<lambda>command.
     try_except (bind (call RunGitDiff (git_diff w command)) (\<lambda>output. ret (Some output)))
       (\<lambda>e. if e = CalledProcessError then Some (ret None) else None)))"

section \<open>Request builder and caller\<close>

definition join :: "str \<Rightarrow> str list \<Rightarrow> str" where
  \<comment> \<open>\<open>sep.join(xs)\<close>\<close>
  "join sep xs = (case xs of [] \<Rightarrow> [] | x # ys \<Rightarrow> x @ concat (map (\<lambda>y. sep @ y) ys))"

fun the_strs :: "json list \<Rightarrow> exn + str list" where
  "the_strs [] = Inr []"
| "the_strs (JStr s # xs) = (case the_strs xs of Inl e \<Rightarrow> Inl e | Inr ss \<Rightarrow> Inr (s # ss))"
| "the_strs (_ # xs) = Inl TypeError"

definition join_json :: "str \<Rightarrow> json \<Rightarrow> exn + str" where
  \<comment> \<open>\<open>sep.join(x)\<close> on a parsed JSON value: it iterates a list, the characters of a string
      or the keys of a dict, and every item must be a string\<close>
  "join_json sep x =
     (case x of
        JList xs \<Rightarrow> (case the_strs xs of Inl e \<Rightarrow> Inl e | Inr ss \<Rightarrow> Inr (join sep ss))
      | JStr s \<Rightarrow> Inr (join sep (map (\<lambda>c. [c]) s))
      | JObj d \<Rightarrow> Inr (join sep (map fst d))
      | _ \<Rightarrow> Inl TypeError)"

definition format_template :: "world \<Rightarrow> json \<Rightarrow> str \<Rightarrow> str \<Rightarrow> exn + str" where
  \<comment> \<open>\<open>template.format(git_command=..., diff=...)\<close>: only a string has \<open>format\<close>\<close>
  "format_template w template git_command diff =
     (case template of JStr t \<Rightarrow> str_format w t git_command diff | _ \<Rightarrow> Inl AttributeError)"

definition prepare_request_data :: "str \<Rightarrow> dict \<Rightarrow> world \<Rightarrow> request comp" where
  "prepare_request_data diff config w =
     bind (enter BuildRequest) (\<lambda>_.
     bind (lift (dict_get config GIT_COMMAND)) (\<lambda>command.
     bind (lift (join_json [32] command)) (\<lambda>git_command.
     bind (lift (dict_get config MESSAGE_TEMPLATE)) (\<lambda>template.
     bind (lift (format_template w template git_command diff)) (\<lambda>message_content.
     bind (lift (dict_get config MODEL_NAME)) (\<lambda>model_name.
     bind (lift (dict_get config TEMPERATURE)) (\<lambda>temp.
     ret \<lparr>model = model_name, content = message_content, temperature = temp\<rparr>)))))))"

definition count_tokens :: "request \<Rightarrow> world \<Rightarrow> int comp" where
  \<comment> \<open>the number of tokens of \<open>json.dumps(data)\<close> for the configured model\<close>
  "count_tokens data w = call CountTokens (tokens w data)"

definition int_gt_json :: "int \<Rightarrow> json \<Rightarrow> exn + bool" where
  \<comment> \<open>\<open>n > x\<close> for an \<open>int\<close> and a parsed JSON value; \<open>bool\<close> is a subclass of \<open>int\<close>\<close>
  "int_gt_json n x =
     (case x of
        JInt m \<Rightarrow> Inr (n > m)
      | JFloat q \<Rightarrow> Inr (of_int n > q)
      | JBool b \<Rightarrow> Inr (n > (if b then 1 else 0))
      | _ \<Rightarrow> Inl TypeError)"

definition check_token_count_and_get_confirmation :: "str \<Rightarrow> dict \<Rightarrow> world \<Rightarrow> bool comp" where
  "check_token_count_and_get_confirmation diff config w =
     bind (prepare_request_data diff config w) (\<lambda>data.
     bind (count_tokens data w) (\<lambda>token_count.
     bind (lift (dict_get config MAX_TOKEN_COUNT)) (\<lambda>max_count.
     bind (lift (int_gt_json token_count max_count)) (\<lambda>too_many.
     if too_many
     then bind (call AskProceed (confirm_proceed w)) (\<lambda>proceed.
            if proceed \<noteq> Some True then ret False else ret True)
     else ret True))))"

definition send_request_to_openai :: "request \<Rightarrow> dict \<Rightarrow> world \<Rightarrow> response option comp" where
  "send_request_to_openai data config w =
     bind (enter CallApi) (\<lambda>_.
     bind (lift (dict_get config OPENAI_API_KEY)) (\<lambda>api_key.
     try_except
       (bind (lift (dict_get config OPENAI_API_URL)) (\<lambda>url.
        bind (call HttpPost (http_post w url api_key data)) (\<lambda>resp.
        bind (lift (if status_ok resp then Inr () else Inl OtherException)) (\<lambda>_.
        bind (lift (body resp)) (\<lambda>_.
        ret (Some resp))))))
       (\<lambda>e. Some (ret None))))"

section \<open>Response processing\<close>

definition response_content :: "json \<Rightarrow> exn + json" where
  \<comment> \<open>\<open>j['choices'][0]['message']['content']\<close>\<close>
  "response_content j =
     (case subscript_key j (u ''choices'') of Inl e \<Rightarrow> Inl e | Inr choices \<Rightarrow>
       (case subscript_0 choices of Inl e \<Rightarrow> Inl e | Inr choice \<Rightarrow>
         (case subscript_key choice (u ''message'') of Inl e \<Rightarrow> Inl e | Inr message \<Rightarrow>
            subscript_key message (u ''content''))))"

definition normalize_json :: "json \<Rightarrow> exn + str list" where
  \<comment> \<open>\<open>normalize_messages(content)\<close>: only a string has \<open>split\<close>\<close>
  "normalize_json c = (case c of JStr s \<Rightarrow> Inr (normalize_messages s) | _ \<Rightarrow> Inl AttributeError)"

definition process_response :: "response option \<Rightarrow> str list comp" where
  "process_response resp =
     bind (enter NormalizeResponse) (\<lambda>_.
     case resp of
       None \<Rightarrow> ret []
     | Some r \<Rightarrow>
         try_except
           (bind (lift (body r)) (\<lambda>j.
            bind (lift (response_content j)) (\<lambda>c.
            lift (normalize_json c))))
           (\<lambda>e. if is_Exception e then Some (ret []) else None))"

section \<open>Branch-based prefixer\<close>

definition get_current_branch :: "nat \<Rightarrow> world \<Rightarrow> str option comp" where
  "get_current_branch n w =
     try_except (bind (call BranchLookup (git_branch w n)) (\<lambda>output. ret (Some (strip output))))
       (\<lambda>e. if e = CalledProcessError then Some (ret None) else None)"

definition task_id_of :: "str \<Rightarrow> str" where
  \<comment> \<open>\<open>branch_name.split('--')[0].split('/')[-1]\<close>; \<open>split\<close> never returns an empty list\<close>
  "task_id_of branch_name = last (str_split (hd (str_split branch_name (u ''--''))) (u ''/''))"

definition prefix_suggestions :: "str option \<Rightarrow> str list \<Rightarrow> str list" where
  \<comment> \<open>the body of \<open>add_prefix_to_suggestions\<close> after the branch lookup\<close>
  "prefix_suggestions branch_name suggestions =
     (case branch_name of
        None \<Rightarrow> suggestions
      | Some b \<Rightarrow>
          if startswith b (u ''feature/IOS-'')
          then (let task_id = task_id_of b; prefix = task_id @ u '': ''
                in [prefix @ strip s. s \<leftarrow> suggestions, strip s \<noteq> []])
          else suggestions)"

definition add_prefix_to_suggestions :: "str list \<Rightarrow> world \<Rightarrow> str list comp" where
  "add_prefix_to_suggestions suggestions w =
     bind (enter PrefixByBranch) (\<lambda>_.
     bind (get_current_branch 0 w) (\<lambda>branch_name.
     ret (prefix_suggestions branch_name suggestions)))"

definition prefix_of_branch :: "str option \<Rightarrow> str" where
  \<comment> \<open>the body of \<open>get_prefix_name\<close> after the branch lookup\<close>
  "prefix_of_branch branch_name =
     (case branch_name of
        None \<Rightarrow> []
      | Some b \<Rightarrow> if startswith b (u ''feature/IOS-'') then task_id_of b @ u '': '' else [])"

definition get_prefix_name :: "world \<Rightarrow> str comp" where
  "get_prefix_name w =
     bind (get_current_branch 1 w) (\<lambda>branch_name. ret (prefix_of_branch branch_name))"

section \<open>Selection and commit\<close>

definition get_commit_suggestions :: "str \<Rightarrow> dict \<Rightarrow> world \<Rightarrow> str list option comp" where
  "get_commit_suggestions diff config w =
     bind (check_token_count_and_get_confirmation diff config w) (\<lambda>ok.
     if \<not> ok then ret None
     else
       bind (prepare_request_data diff config w) (\<lambda>data.
       bind (send_request_to_openai data config w) (\<lambda>resp.
       bind (process_response resp) (\<lambda>suggestions.
       bind (add_prefix_to_suggestions suggestions w) (\<lambda>suggestions.
       ret (Some suggestions))))))"

definition make_commit :: "str \<Rightarrow> world \<Rightarrow> str option comp" where
  "make_commit commit_message w =
     bind (enter Commit) (\<lambda>_.
     try_except (bind (call (RunGitCommit commit_message) (git_commit w commit_message))
                   (\<lambda>output. ret (Some output)))
       (\<lambda>e. if e = CalledProcessError then Some (ret None) else None))"

definition create_custom_commit_message :: "world \<Rightarrow> str comp" where
  "create_custom_commit_message w =
     bind (call AskMessage (input_message w)) (\<lambda>commit_message.
     bind (get_prefix_name w) (\<lambda>prefix.
     ret (prefix @ commit_message)))"

definition own_message :: str where
  "own_message = u ''Enter your own commit message''"

definition prompt_for_commit_message :: "str list \<Rightarrow> world \<Rightarrow> str comp" where
  "prompt_for_commit_message commit_suggestions w =
     bind (enter PromptUser) (\<lambda>_.
     let choices = commit_suggestions @ [own_message]
     in bind (call (ChooseMessage choices) (choose_message w choices)) (\<lambda>commit_message.
        if commit_message = own_message then create_custom_commit_message w
        else ret commit_message))"

definition process_diff :: "str \<Rightarrow> dict \<Rightarrow> world \<Rightarrow> unit comp" where
  \<comment> \<open>\<open>if commit_suggestions:\<close> is false for \<open>None\<close> and for the empty list\<close>
  "process_diff diff config w =
     bind (get_commit_suggestions diff config w) (\<lambda>commit_suggestions.
     case commit_suggestions of
       None \<Rightarrow> ret ()
     | Some [] \<Rightarrow> ret ()
     | Some (s # ss) \<Rightarrow>
         bind (prompt_for_commit_message (s # ss) w) (\<lambda>commit_message.
         bind (make_commit commit_message w) (\<lambda>_. ret ())))"

definition main :: "world \<Rightarrow> unit comp" where
  \<comment> \<open>the \<open>try\<close> block of \<open>main\<close>, after the logging is set up; \<open>if diff:\<close> is false for
      \<open>None\<close> and for the empty string\<close>
  "main w =
     try_except
       (bind (load_config w) (\<lambda>config.
        bind (get_git_diff config w) (\<lambda>diff.
        case diff of
          None \<Rightarrow> ret ()
        | Some [] \<Rightarrow> ret ()
        | Some (c # cs) \<Rightarrow> process_diff (c # cs) config w)))
       (\<lambda>e. if e = KeyboardInterrupt then Some (ret ()) else None)"

section \<open>An example run\<close>

text \<open>
  A configuration as the program ships it, filled in, and a world in which every call
  succeeds: the API answers with a preamble line and two numbered suggestions, the branch
  is \<open>feature/IOS-12--login\<close>, and the user takes the first choice.
\<close>

definition example_config :: dict where
  "example_config =
     [(MODEL_NAME, JStr (u ''gpt-3.5-turbo'')),
      (OPENAI_API_KEY, JStr (u ''sk-1'')),
      (TASK_PREFIX, JStr (u ''IOS'')),
      (OPENAI_API_URL, JStr (u ''https://api.openai.com/v1/chat/completions'')),
      (MAX_TOKEN_COUNT, JInt 4000),
      (TEMPERATURE, JFloat (7 / 10)),
      (GIT_COMMAND, JList [JStr (u ''git''), JStr (u ''diff''), JStr (u ''--cached'')]),
      (MESSAGE_TEMPLATE, JStr (u ''Suggest commit messages for {diff}''))]"

definition example_answer :: str where
  "example_answer = u ''Here are two:'' @ [10] @ u ''1. fix: login'' @ [10] @ u ''2. add: test''"

definition example_body :: json where
  "example_body =
     JObj [(u ''choices'',
            JList [JObj [(u ''message'', JObj [(u ''content'', JStr example_answer)])]])]"

definition example_world :: world where
  "example_world =
     \<lparr>config_file = Inr (JObj example_config),
      input_api_key = Inr (u ''sk-2''),
      input_task_prefix = Inr (u ''IOS''),
      config_write = (\<lambda>_. None),
      git_diff = (\<lambda>_. Inr (u ''+ new line'')),
      str_format = (\<lambda>template git_command diff. Inr (template @ diff)),
      tokens = (\<lambda>_. Inr 10),
      confirm_proceed = Inr (Some True),
      http_post = (\<lambda>_ _ _. Inr \<lparr>status_ok = True, body = Inr example_body\<rparr>),
      git_branch = (\<lambda>_. Inr (u ''feature/IOS-12--login'' @ [10])),
      choose_message = (\<lambda>choices. Inr (hd choices)),
      input_message = Inr (u ''my message''),
      git_commit = (\<lambda>_. Inr (u ''committed''))\<rparr>"

text \<open>The same world with the API down, and with a configuration whose API key only is
  still the placeholder.\<close>

definition api_down_world :: world where
  "api_down_world = example_world\<lparr>http_post := (\<lambda>_ _ _. Inl OtherException)\<rparr>"

definition key_only_world :: world where
  "key_only_world =
     example_world\<lparr>config_file :=
       Inr (JObj (dict_set example_config OPENAI_API_KEY (JStr YOUR_TOKEN_KEY)))\<rparr>"

definition no_content_response :: response where
  "no_content_response = \<lparr>status_ok = True, body = Inr (JObj [(u ''error'', JStr (u ''quota''))])\<rparr>"

fun stages :: "event list \<Rightarrow> stage list" where
  \<comment> \<open>the stages entered, in order\<close>
  "stages [] = []"
| "stages (Enter s # t) = s # stages t"
| "stages (_ # t) = stages t"


definition on_feature_branch :: "str option \<Rightarrow> bool" where
  \<comment> \<open>\<open>branch_name is not None and branch_name.startswith('feature/IOS-')\<close>\<close>
  "on_feature_branch branch_name =
     (case branch_name of None \<Rightarrow> False | Some b \<Rightarrow> startswith b (u ''feature/IOS-''))"

text \<open>
  The words of the specification for the task identifier: \<open>p\<close> is the portion of \<open>b\<close> before
  the first occurrence of \<open>sep\<close> (all of \<open>b\<close> when \<open>sep\<close> does not occur), and \<open>t\<close> is the last
  segment of \<open>p\<close> when \<open>p\<close> is cut at every \<open>c\<close>.
\<close>

definition is_before_first :: "str \<Rightarrow> str \<Rightarrow> str \<Rightarrow> bool" where
  "is_before_first sep b p =
     ((p = b \<and> \<not> sublist sep b) \<or> (prefix (p @ sep) b \<and> \<not> sublist sep (p @ butlast sep)))"

definition is_last_segment :: "codepoint \<Rightarrow> str \<Rightarrow> str \<Rightarrow> bool" where
  "is_last_segment c p t = (c \<notin> set t \<and> (t = p \<or> suffix (c # t) p))"

section \<open>The normalizer in the words of the specification\<close>

text \<open>
  What the specification says the normalizer does to one line, as functions on strings
  that use no regular expression: the rest of a line after an initial list marker (decimal
  digits followed by a dot, or a dash, or a star, followed by whitespace), the removal of
  one leading and one trailing quote character, of the quote characters next to a colon
  and of the two-character sequences backslash-n.
\<close>

definition after_marker :: "str \<Rightarrow> str option" where
  "after_marker s =
     (case s of
        [] \<Rightarrow> None
      | c # cs \<Rightarrow>
          if is_decimal c
          then (case dropWhile is_decimal cs of
                  d # e # r \<Rightarrow> if d = 46 \<and> is_space e then Some (dropWhile is_space r) else None
                | _ \<Rightarrow> None)
          else if c = 45 \<or> c = 42
          then (case cs of
                  e # r \<Rightarrow> if is_space e then Some (dropWhile is_space r) else None
                | [] \<Rightarrow> None)
          else None)"

definition drop_marker :: "str \<Rightarrow> str" where
  "drop_marker s = (case after_marker s of None \<Rightarrow> s | Some t \<Rightarrow> t)"

definition drop_initial_quote :: "str \<Rightarrow> str" where
  "drop_initial_quote s = (case s of [] \<Rightarrow> [] | c # cs \<Rightarrow> if is_quote c then cs else s)"

definition drop_trailing_quote :: "str \<Rightarrow> str" where
  "drop_trailing_quote s = (if s \<noteq> [] \<and> is_quote (last s) then butlast s else s)"

fun unquote_before_colon :: "str \<Rightarrow> str" where
  "unquote_before_colon (q # c # r) =
     (if is_quote q \<and> c = 58 then 58 # unquote_before_colon r
      else q # unquote_before_colon (c # r))"
| "unquote_before_colon [c] = [c]"
| "unquote_before_colon [] = []"

fun unquote_after_colon :: "str \<Rightarrow> str" where
  "unquote_after_colon (c # q # r) =
     (if c = 58 \<and> is_quote q then 58 # unquote_after_colon r
      else c # unquote_after_colon (q # r))"
| "unquote_after_colon [c] = [c]"
| "unquote_after_colon [] = []"

fun remove_backslash_n :: "str \<Rightarrow> str" where
  "remove_backslash_n (a # b # r) =
     (if a = 92 \<and> b = 110 then remove_backslash_n r else a # remove_backslash_n (b # r))"
| "remove_backslash_n [c] = [c]"
| "remove_backslash_n [] = []"

definition clean_line :: "str \<Rightarrow> str" where
  "clean_line m =
     strip (remove_backslash_n (unquote_after_colon (unquote_before_colon
       (drop_trailing_quote (drop_initial_quote (drop_marker (strip m)))))))"

text \<open>
  The effect of the pattern \<^verbatim>\<open>['"]$\<close> on any string: \<open>$\<close> also matches before a newline
  that ends the string.
\<close>

fun strip_tq :: "str \<Rightarrow> str" where
  "strip_tq [] = []"
| "strip_tq (c # cs) = (if is_quote c \<and> (cs = [] \<or> cs = [10]) then cs else c # strip_tq cs)"

text \<open>
  The suggestion list as claim C1 words it: every line of the response, stripped of
  leading whitespace, of an initial list marker and of a leading and a trailing quote.
\<close>

definition claimed_normalize_messages :: "str \<Rightarrow> str list" where
  "claimed_normalize_messages response =
     map (\<lambda>l. drop_trailing_quote (drop_initial_quote (drop_marker (lstrip l))))
       (str_split response [10])"

definition example_reply :: str where
  \<comment> \<open>four lines: \<^verbatim>\<open>Sure:\<close>, \<^verbatim>\<open>-\<close>, \<^verbatim>\<open>1. "fix': a\nb" \<close> and \<^verbatim>\<open>* add: c\<close>\<close>
  "example_reply = u ''Sure:'' @ [10] @ u ''-'' @ [10]
     @ u ''1. '' @ [34] @ u ''fix'' @ [39] @ u '': a'' @ [92] @ u ''nb'' @ [34, 32] @ [10]
     @ u ''* add: c''"

section \<open>Auxiliary lemmas\<close>

subsection \<open>Computations\<close>

lemma snd_bind:
  "snd (bind m f) = (case snd m of Inl e \<Rightarrow> Inl e | Inr x \<Rightarrow> snd (f x))"
  by (cases m) (auto simp: bind_def split: sum.splits prod.splits)

lemma fst_bind:
  "fst (bind m f) = (case snd m of Inl e \<Rightarrow> fst m | Inr x \<Rightarrow> fst m @ fst (f x))"
  by (cases m) (auto simp: bind_def split: sum.splits prod.splits)

lemma concat_map_if:
  "concat (map (\<lambda>x. if P x then [f x] else []) xs) = map f (filter P xs)"
  by (induction xs) simp_all

lemma add_prefix_value:
  "snd (add_prefix_to_suggestions ss w) =
     (case snd (get_current_branch 0 w) of Inl e \<Rightarrow> Inl e
      | Inr bn \<Rightarrow> Inr (prefix_suggestions bn ss))"
  by (simp add: add_prefix_to_suggestions_def snd_bind enter_def ret_def split: sum.splits)

lemma prefix_suggestions_eq:
  "prefix_suggestions bn ss =
     (if on_feature_branch bn
      then map (\<lambda>s. prefix_of_branch bn @ strip s) (filter (\<lambda>s. strip s \<noteq> []) ss)
      else ss)"
  by (cases bn)
     (simp_all add: prefix_suggestions_def on_feature_branch_def prefix_of_branch_def Let_def
        concat_map_if)

lemma normalize_messages_eq:
  "normalize_messages c =
     map normalize_message_filter (filter (\<lambda>m. length m > 1) (drop 1 (str_split c [10])))"
  by (simp add: normalize_messages_def Let_def concat_map_if)

lemma subseq_drop: "subseq (drop n xs) xs"
  by (metis append_take_drop_id subseq_order.order_refl list_emb_append2)

lemmas comp_defs = bind_def ret_def raise_def call_def enter_def lift_def try_except_def

subsection \<open>Traces of the pipeline functions\<close>



lemma get_git_diff_trace:
  "fst (get_git_diff config w) =
     (case dict_get config GIT_COMMAND of Inl e \<Rightarrow> [Enter ObtainDiff]
      | Inr c \<Rightarrow> [Enter ObtainDiff, RunGitDiff])"
  unfolding get_git_diff_def comp_defs
  by (auto split: sum.splits option.splits prod.splits if_splits)

lemma prepare_request_data_trace:
  "fst (prepare_request_data diff config w) = [Enter BuildRequest]"
  unfolding prepare_request_data_def comp_defs
  by (auto split: sum.splits option.splits prod.splits if_splits)


lemma send_trace:
  "fst (send_request_to_openai data config w) \<in> {[Enter CallApi], [Enter CallApi, HttpPost]}"
  unfolding send_request_to_openai_def comp_defs
  by (auto split: sum.splits option.splits prod.splits if_splits)

lemma process_response_trace:
  "fst (process_response r) = [Enter NormalizeResponse]"
  unfolding process_response_def comp_defs
  by (auto split: sum.splits option.splits prod.splits if_splits)

lemma get_current_branch_trace:
  "fst (get_current_branch n w) = [BranchLookup]"
  unfolding get_current_branch_def comp_defs
  by (auto split: sum.splits option.splits prod.splits if_splits)

lemma add_prefix_trace:
  "fst (add_prefix_to_suggestions ss w) = [Enter PrefixByBranch, BranchLookup]"
  unfolding add_prefix_to_suggestions_def
  by (cases "get_current_branch 0 w")
     (use get_current_branch_trace[of 0 w] in
       \<open>auto simp: comp_defs split: sum.splits option.splits prod.splits if_splits\<close>)

lemma make_commit_trace:
  "fst (make_commit m w) = [Enter Commit, RunGitCommit m]"
  unfolding make_commit_def comp_defs
  by (auto split: sum.splits option.splits prod.splits if_splits)












lemma fst_try_except_None:
  "fst (try_except m (\<lambda>e. if c e then Some (ret x) else None)) = fst m"
  by (cases m) (auto simp: try_except_def ret_def split: sum.splits)




lemma response_content_exn:
  "response_content j = Inl e \<Longrightarrow> is_Exception e"
  unfolding response_content_def subscript_key_def subscript_0_def dict_get_def is_Exception_def
  by (auto split: sum.splits json.splits list.splits option.splits)

lemma check_value:
  assumes "snd (prepare_request_data diff config w) = Inr data"
    and "tokens w data = Inr n"
    and "dict_get config MAX_TOKEN_COUNT = Inr (JInt mx)"
  shows "check_token_count_and_get_confirmation diff config w =
     (if n > mx
      then ([Enter BuildRequest, CountTokens, AskProceed],
            case confirm_proceed w of Inl e \<Rightarrow> Inl e | Inr a \<Rightarrow> Inr (a = Some True))
      else ([Enter BuildRequest, CountTokens], Inr True))"
  using assms prepare_request_data_trace[of diff config w]
  unfolding check_token_count_and_get_confirmation_def count_tokens_def int_gt_json_def
  by (cases "prepare_request_data diff config w")
     (auto simp: comp_defs split: sum.splits)

lemma send_trace_post:
  "dict_get config OPENAI_API_KEY = Inr k \<Longrightarrow> dict_get config OPENAI_API_URL = Inr url \<Longrightarrow>
   fst (send_request_to_openai data config w) = [Enter CallApi, HttpPost]"
  unfolding send_request_to_openai_def comp_defs
  by (auto split: sum.splits option.splits prod.splits if_splits)







lemma process_diff_trace:
  "fst (process_diff diff config w) =
     (case snd (get_commit_suggestions diff config w) of
        Inr (Some (s # ss)) \<Rightarrow>
          fst (get_commit_suggestions diff config w) @ fst (prompt_for_commit_message (s # ss) w) @
          (case snd (prompt_for_commit_message (s # ss) w) of
             Inl e \<Rightarrow> [] | Inr msg \<Rightarrow> [Enter Commit, RunGitCommit msg])
      | _ \<Rightarrow> fst (get_commit_suggestions diff config w))"
  unfolding process_diff_def
  by (simp add: fst_bind snd_bind make_commit_trace ret_def
      split: sum.splits option.splits list.splits)

lemma main_trace:
  "fst (main w) =
     (case snd (load_config w) of
        Inl e \<Rightarrow> fst (load_config w)
      | Inr config \<Rightarrow>
          fst (load_config w) @ fst (get_git_diff config w) @
          (case snd (get_git_diff config w) of
             Inr (Some (c # cs)) \<Rightarrow> fst (process_diff (c # cs) config w)
           | _ \<Rightarrow> []))"
  unfolding main_def
  by (simp add: fst_try_except_None fst_bind snd_bind ret_def
      split: sum.splits option.splits list.splits)



subsection \<open>Failure paths\<close>

lemma get_git_diff_failure:
  "dict_get config GIT_COMMAND = Inr cmd \<Longrightarrow> git_diff w cmd = Inl e \<Longrightarrow>
   snd (get_git_diff config w) = (if e = CalledProcessError then Inr None else Inl e)"
  unfolding get_git_diff_def comp_defs by simp

lemma send_failure:
  "dict_get config OPENAI_API_KEY = Inr k \<Longrightarrow> dict_get config OPENAI_API_URL = Inr url \<Longrightarrow>
   http_post w url k data = Inl e \<Longrightarrow>
   snd (send_request_to_openai data config w) = Inr None"
  unfolding send_request_to_openai_def comp_defs by simp

lemma make_commit_failure:
  "git_commit w msg = Inl e \<Longrightarrow>
   snd (make_commit msg w) = (if e = CalledProcessError then Inr None else Inl e)"
  unfolding make_commit_def comp_defs by simp

lemma get_git_diff_success:
  "dict_get config GIT_COMMAND = Inr cmd \<Longrightarrow> git_diff w cmd = Inr out \<Longrightarrow>
   snd (get_git_diff config w) = Inr (Some out)"
  unfolding get_git_diff_def comp_defs by simp

lemma make_commit_success:
  "git_commit w msg = Inr out \<Longrightarrow> snd (make_commit msg w) = Inr (Some out)"
  unfolding make_commit_def comp_defs by simp

lemma send_value:
  "dict_get config OPENAI_API_KEY = Inr k \<Longrightarrow>
   snd (send_request_to_openai data config w) =
     (case dict_get config OPENAI_API_URL of
        Inl e \<Rightarrow> Inr None
      | Inr url \<Rightarrow>
          (case http_post w url k data of
             Inl e \<Rightarrow> Inr None
           | Inr resp \<Rightarrow>
               (case body resp of
                  Inl e \<Rightarrow> Inr None
                | Inr j \<Rightarrow> if status_ok resp then Inr (Some resp) else Inr None)))"
  unfolding send_request_to_openai_def comp_defs by (simp split: sum.splits)

lemma main_after_diff_failure:
  "snd (load_config w) = Inr config \<Longrightarrow>
   \<forall>c cs. snd (get_git_diff config w) \<noteq> Inr (Some (c # cs)) \<Longrightarrow>
   fst (main w) = fst (load_config w) @ fst (get_git_diff config w)"
  by (simp add: main_trace split: sum.splits option.splits list.splits)

lemma prefix_suggestions_Nil: "prefix_suggestions bn [] = []"
  by (simp add: prefix_suggestions_def Let_def split: option.splits)

lemma after_api_failure:
  assumes "snd (check_token_count_and_get_confirmation diff config w) = Inr True"
    and "snd (prepare_request_data diff config w) = Inr data"
    and "snd (send_request_to_openai data config w) = Inr None"
  shows "fst (process_diff diff config w) =
       fst (check_token_count_and_get_confirmation diff config w) @ [Enter BuildRequest]
       @ fst (send_request_to_openai data config w)
       @ [Enter NormalizeResponse, Enter PrefixByBranch, BranchLookup]"
proof -
  have pr: "process_response None = ([Enter NormalizeResponse], Inr [])"
    by (simp add: process_response_def comp_defs)
  have g: "fst (get_commit_suggestions diff config w) =
       fst (check_token_count_and_get_confirmation diff config w) @ [Enter BuildRequest]
       @ fst (send_request_to_openai data config w)
       @ [Enter NormalizeResponse, Enter PrefixByBranch, BranchLookup]"
    using assms unfolding get_commit_suggestions_def
    by (simp add: fst_bind snd_bind prepare_request_data_trace add_prefix_trace pr ret_def
        split: sum.splits)
  have "snd (get_commit_suggestions diff config w) = Inr (Some []) \<or>
        (\<exists>e. snd (get_commit_suggestions diff config w) = Inl e)"
    using assms unfolding get_commit_suggestions_def
    by (simp add: fst_bind snd_bind pr ret_def add_prefix_value prefix_suggestions_Nil
        split: sum.splits)
  then show ?thesis
    using g by (auto simp: process_diff_trace)
qed


lemma load_config_frame:
  "config_file w = Inr (JObj config) \<Longrightarrow> snd (load_config w) = Inr config' \<Longrightarrow>
   k \<noteq> OPENAI_API_KEY \<Longrightarrow> k \<noteq> TASK_PREFIX \<Longrightarrow> map_of config' k = map_of config k"
  unfolding load_config_def comp_defs as_dict_def dict_set_def
  by (auto simp: Let_def update_conv' split: sum.splits if_splits option.splits prod.splits)

subsection \<open>Splitting and the task identifier\<close>

lemma strip_Nil_iff: "strip s = [] \<longleftrightarrow> list_all is_space s"
proof -
  have "dropWhile is_space s = [] \<longleftrightarrow> list_all is_space s"
    by (simp add: list_all_iff)
  moreover have "dropWhile is_space (rev (dropWhile is_space s)) = [] \<longleftrightarrow> dropWhile is_space s = []"
  proof (cases "dropWhile is_space s")
    case Nil
    show ?thesis unfolding Nil by simp
  next
    case (Cons a list)
    then have "\<not> is_space a" by (metis hd_dropWhile list.sel(1) list.distinct(1))
    then show ?thesis using Cons by auto
  qed
  ultimately show ?thesis by (simp add: strip_def rstrip_def lstrip_def)
qed

lemma split_from_not_Nil: "split_from sep acc s \<noteq> []"
  by (induction sep acc s rule: split_from.induct) auto

lemma hd_split_from:
  "sep \<noteq> [] \<Longrightarrow> \<exists>p. hd (split_from sep acc s) = acc @ p \<and> is_before_first sep s p"
proof (induction sep acc s rule: split_from.induct)
  case (1 sep acc)
  then show ?case by (simp add: is_before_first_def)
next
  case (2 sep acc c cs)
  show ?case
  proof (cases "prefix sep (c # cs)")
    case True
    have "\<not> sublist sep (butlast sep)"
      using 2(3) by (metis sublist_length_le length_butlast diff_less length_greater_0_conv
          less_one not_le)
    then show ?thesis using True 2(3) by (auto simp: is_before_first_def)
  next
    case False
    then obtain p where p: "hd (split_from sep (acc @ [c]) cs) = (acc @ [c]) @ p"
      "is_before_first sep cs p"
      using 2 by auto
    have "is_before_first sep (c # cs) (c # p)"
    proof (cases "p = cs \<and> \<not> sublist sep cs")
      case True
      then show ?thesis using False by (auto simp: is_before_first_def sublist_Cons_right)
    next
      case F: False
      then have a: "prefix (p @ sep) cs" "\<not> sublist sep (p @ butlast sep)"
        using p(2) by (auto simp: is_before_first_def)
      have "p @ sep = (p @ butlast sep) @ [last sep]"
        using 2(3) by simp
      then have "prefix (p @ butlast sep) (p @ sep)"
        unfolding prefix_def by blast
      then have "prefix (c # p @ butlast sep) (c # cs)"
        using a(1) by (meson Cons_prefix_Cons prefix_order.order_trans)
      then have "\<not> prefix sep (c # p @ butlast sep)"
        using False prefix_order.order_trans by blast
      then show ?thesis
        using a by (auto simp: is_before_first_def sublist_Cons_right)
    qed
    then show ?thesis using p False by auto
  qed
qed

lemma last_split_from:
  "c \<notin> set acc \<Longrightarrow>
   c \<notin> set (last (split_from [c] acc s)) \<and>
   (last (split_from [c] acc s) = acc @ s \<or> suffix (c # last (split_from [c] acc s)) (acc @ s))"
proof (induction "[c]" acc s rule: split_from.induct)
  case (1 acc)
  then show ?case by simp
next
  case (2 acc d ds)
  show ?case
  proof (cases "d = c")
    case True
    then have l: "last (split_from [c] acc (d # ds)) = last (split_from [c] [] ds)"
      by (simp add: split_from_not_Nil)
    have "c \<notin> set (last (split_from [c] [] ds)) \<and>
      (last (split_from [c] [] ds) = [] @ ds \<or> suffix (c # last (split_from [c] [] ds)) ([] @ ds))"
      using 2(1) True by simp
    moreover have "suffix (c # ds) (acc @ d # ds)"
      using True by (simp add: suffix_def)
    moreover have "suffix x ds \<Longrightarrow> suffix x (acc @ d # ds)" for x
      by (simp add: suffix_ConsI suffix_appendI)
    ultimately show ?thesis
      unfolding l by auto
  next
    case False
    then have l: "last (split_from [c] acc (d # ds)) = last (split_from [c] (acc @ [d]) ds)"
      by simp
    show ?thesis unfolding l using 2(2)[OF _ ] False 2(3) by auto
  qed
qed

lemma task_id_segment:
  "is_last_segment 47 (hd (str_split b (u ''--''))) (task_id_of b)"
  using last_split_from[of 47 "[]" "hd (str_split b (u ''--''))"]
  by (simp add: is_last_segment_def task_id_of_def str_split_def u_def)

lemma is_last_segment_unique:
  assumes "is_last_segment c p t" and "is_last_segment c p t'"
  shows "t = t'"
proof -
  have nt: "c \<notin> set t" and nt': "c \<notin> set t'"
    using assms by (auto simp: is_last_segment_def)
  have a: "suffix (c # x) y \<Longrightarrow> c \<in> set y" for x y
    by (auto simp: suffix_def)
  consider "t = p" "t' = p" | "t = p" "suffix (c # t') p" | "suffix (c # t) p" "t' = p"
    | "suffix (c # t) p" "suffix (c # t') p"
    using assms by (auto simp: is_last_segment_def)
  then show ?thesis
  proof cases
    case 1 then show ?thesis by simp
  next
    case 2 then show ?thesis using a nt by blast
  next
    case 3 then show ?thesis using a nt' by blast
  next
    case 4
    then have "suffix (c # t) (c # t') \<or> suffix (c # t') (c # t)"
      using suffix_same_cases by blast
    then show ?thesis
      using nt nt' a by (auto simp: suffix_Cons)
  qed
qed

lemma is_before_first_unique:
  assumes "sep \<noteq> []" and "is_before_first sep b p" and "is_before_first sep b p'"
  shows "p = p'"
proof -
  have step: "prefix (x @ sep) b \<Longrightarrow> prefix (y @ sep) b \<Longrightarrow> length x < length y \<Longrightarrow>
      sublist sep (y @ butlast sep)" for x y
  proof -
    assume x: "prefix (x @ sep) b" and y: "prefix (y @ sep) b" and l: "length x < length y"
    have "y @ sep = (y @ butlast sep) @ [last sep]"
      using assms(1) by simp
    then have "prefix (y @ butlast sep) (y @ sep)"
      unfolding prefix_def by blast
    then have "prefix (y @ butlast sep) b"
      using y prefix_order.order_trans by blast
    moreover have "length (x @ sep) \<le> length (y @ butlast sep)"
      using l assms(1) by (cases sep) auto
    ultimately have "prefix (x @ sep) (y @ butlast sep)"
      using x prefix_length_prefix by blast
    then obtain z where "y @ butlast sep = x @ sep @ z"
      by (auto simp: prefix_def)
    then show ?thesis
      by simp
  qed
  have w: "prefix (x @ sep) b \<Longrightarrow> sublist sep b" for x
    by (auto simp: prefix_def)
  consider "p = b" "\<not> sublist sep b" "p' = b"
    | "p = b" "\<not> sublist sep b" "prefix (p' @ sep) b"
    | "prefix (p @ sep) b" "p' = b" "\<not> sublist sep b"
    | "prefix (p @ sep) b" "\<not> sublist sep (p @ butlast sep)"
      "prefix (p' @ sep) b" "\<not> sublist sep (p' @ butlast sep)"
    using assms(2,3) by (auto simp: is_before_first_def)
  then show ?thesis
  proof cases
    case 1 then show ?thesis by simp
  next
    case 2 then show ?thesis using w by blast
  next
    case 3 then show ?thesis using w by blast
  next
    case 4
    then have "\<not> length p < length p'" "\<not> length p' < length p"
      using step by blast+
    then have "length p = length p'" by simp
    moreover have "prefix p b" "prefix p' b"
      using 4 by (meson append_prefixD)+
    ultimately have "prefix p p'" "prefix p' p"
      using prefix_length_prefix[of p b p'] prefix_length_prefix[of p' b p] by simp_all
    then show ?thesis
      by (rule prefix_order.antisym)
  qed
qed

lemma prefix_hd_split_from: "prefix acc (hd (split_from sep acc s))"
proof (induction sep acc s rule: split_from.induct)
  case (1 sep acc)
  then show ?case by simp
next
  case (2 sep acc c cs)
  then show ?case by (auto dest: append_prefixD)
qed

lemma feature_branch_slash:
  assumes "startswith b (u ''feature/IOS-'')"
  shows "47 \<in> set (hd (str_split b (u ''--'')))"
proof -
  have "u ''feature/IOS-'' = [102, 101, 97, 116, 117, 114, 101, 47, 73, 79, 83, 45]"
    by code_simp
  then obtain r where b: "b = [102, 101, 97, 116, 117, 114, 101, 47, 73, 79, 83, 45] @ r"
    using assms by (auto simp: startswith_def prefix_def)
  have s: "u ''--'' = [45, 45]" by code_simp
  have "hd (str_split b (u ''--'')) =
      hd (split_from [45, 45] [102, 101, 97, 116, 117, 114, 101, 47, 73, 79, 83] (45 # r))"
    unfolding str_split_def b s by simp
  then have "prefix [102, 101, 97, 116, 117, 114, 101, 47, 73, 79, 83] (hd (str_split b (u ''--'')))"
    using prefix_hd_split_from by metis
  then show ?thesis
    by (auto simp: prefix_def)
qed

lemma get_current_branch_value:
  "snd (get_current_branch n w) =
     (case git_branch w n of
        Inr out \<Rightarrow> Inr (Some (strip out))
      | Inl e \<Rightarrow> if e = CalledProcessError then Inr None else Inl e)"
  unfolding get_current_branch_def comp_defs by (simp split: sum.splits)

lemma task_id_spec:
  assumes "startswith b (u ''feature/IOS-'')"
  shows "\<exists>p. is_before_first (u ''--'') b p \<and> is_last_segment 47 p (task_id_of b)
            \<and> suffix (47 # task_id_of b) p"
proof -
  let ?p = "hd (str_split b (u ''--''))"
  have "u ''--'' \<noteq> []" by (simp add: u_def)
  then have 1: "is_before_first (u ''--'') b ?p"
    using hd_split_from[of "u ''--''" "[]" b] by (simp add: str_split_def)
  have 2: "is_last_segment 47 ?p (task_id_of b)"
    by (rule task_id_segment)
  have "task_id_of b \<noteq> ?p"
    using 2 feature_branch_slash[OF assms] by (auto simp: is_last_segment_def)
  then have "suffix (47 # task_id_of b) ?p"
    using 2 by (auto simp: is_last_segment_def)
  with 1 2 show ?thesis by blast
qed

lemma add_prefix_on_feature:
  assumes "git_branch w 0 = Inr out" and "startswith (strip out) (u ''feature/IOS-'')"
  shows "snd (add_prefix_to_suggestions ss w) =
     Inr (map (\<lambda>s. task_id_of (strip out) @ u '': '' @ strip s) (filter (\<lambda>s. strip s \<noteq> []) ss))"
  using assms
  by (simp add: add_prefix_value get_current_branch_value prefix_suggestions_eq
      on_feature_branch_def prefix_of_branch_def)

lemma add_prefix_off_feature:
  assumes "git_branch w 0 = Inr out" and "\<not> startswith (strip out) (u ''feature/IOS-'')"
  shows "snd (add_prefix_to_suggestions ss w) = Inr ss"
  using assms
  by (simp add: add_prefix_value get_current_branch_value prefix_suggestions_eq
      on_feature_branch_def)

lemma add_prefix_no_branch:
  assumes "git_branch w 0 = Inl CalledProcessError"
  shows "snd (add_prefix_to_suggestions ss w) = Inr ss"
  using assms
  by (simp add: add_prefix_value get_current_branch_value prefix_suggestions_eq
      on_feature_branch_def)

lemma get_prefix_name_value:
  "git_branch w 1 = Inr out \<Longrightarrow>
   snd (get_prefix_name w) =
     Inr (if startswith (strip out) (u ''feature/IOS-'')
          then task_id_of (strip out) @ u '': '' else [])"
  by (simp add: get_prefix_name_def snd_bind get_current_branch_value ret_def
      prefix_of_branch_def)

subsection \<open>The patterns against the direct functions\<close>

lemma star_sym_greedy:
  "(\<And>c cs. p c \<Longrightarrow> k (c # cs) = None) \<Longrightarrow> star_sym p s k = k (dropWhile p s)"
  by (induction s) (auto split: option.splits)

lemma star_sym_Some: "star_sym p s Some = Some (dropWhile p s)"
  by (induction s) auto

lemma sub_from_Bol_False: "sub_from (Seq Bol r) repl False s = s"
  by (induction s) auto

lemma not_decimal_marks: "\<not> is_decimal 46" "\<not> is_decimal 45" "\<not> is_decimal 42"
  by code_simp+

lemma plus_space_Some:
  "match_at (Plus is_space) b s (\<lambda>_ t. Some t) =
     (case s of [] \<Rightarrow> None | e # r \<Rightarrow> if is_space e then Some (dropWhile is_space r) else None)"
  by (cases s) (simp_all add: star_sym_Some)

lemma dot_then_space:
  "match_at (Sym (is_char 46)) b s (\<lambda>b' s'. match_at (Plus is_space) b' s' (\<lambda>_ t. Some t)) =
     (case s of d # e # r \<Rightarrow> if d = 46 \<and> is_space e then Some (dropWhile is_space r) else None
      | _ \<Rightarrow> None)"
  by (simp add: star_sym_Some is_char_def split: list.splits)

lemma dot_then_space_decimal:
  "is_decimal c \<Longrightarrow>
   match_at (Sym (is_char 46)) b (c # cs)
     (\<lambda>b' s'. match_at (Plus is_space) b' s' (\<lambda>_ t. Some t)) = None"
  using not_decimal_marks by (auto simp: is_char_def)

lemma seq_plus_sym:
  "match_at (Seq (Plus p) (Sym q)) b (c # cs) K =
     (if p c then star_sym p cs (\<lambda>s'. match_at (Sym q) False s' K) else None)"
  by simp

lemma number_marker:
  "match_at (Seq (Plus is_decimal) (Sym (is_char 46))) b s
     (\<lambda>b' s'. match_at (Plus is_space) b' s' (\<lambda>_ t. Some t)) =
     (case s of [] \<Rightarrow> None
      | c # cs \<Rightarrow>
          if is_decimal c
          then (case dropWhile is_decimal cs of
                  d # e # r \<Rightarrow> if d = 46 \<and> is_space e then Some (dropWhile is_space r) else None
                | _ \<Rightarrow> None)
          else None)"
proof (cases s)
  case Nil
  then show ?thesis by simp
next
  case (Cons c cs)
  have g: "star_sym is_decimal cs
      (\<lambda>s'. match_at (Sym (is_char 46)) False s'
         (\<lambda>b' s'. match_at (Plus is_space) b' s' (\<lambda>_ t. Some t)))
     = match_at (Sym (is_char 46)) False (dropWhile is_decimal cs)
         (\<lambda>b' s'. match_at (Plus is_space) b' s' (\<lambda>_ t. Some t))"
    by (rule star_sym_greedy) (rule dot_then_space_decimal)
  show ?thesis
    unfolding Cons
    apply (subst seq_plus_sym)
    apply (subst g)
    apply (subst dot_then_space)
    apply (simp only: list.case)
    done
qed

lemma sign_marker:
  "match_at (Alt (Sym (is_char 45)) (Sym (is_char 42))) b s
     (\<lambda>b' s'. match_at (Plus is_space) b' s' (\<lambda>_ t. Some t)) =
     (case s of [] \<Rightarrow> None
      | c # cs \<Rightarrow>
          if c = 45 \<or> c = 42
          then (case cs of
                  e # r \<Rightarrow> if is_space e then Some (dropWhile is_space r) else None
                | [] \<Rightarrow> None)
          else None)"
  by (cases s) (auto simp: star_sym_Some is_char_def split: list.splits)

lemma marker_shape:
  "match_at (Seq Bol (Seq (Alt A BC) P)) True s K =
     (case match_at A True s (\<lambda>b' s'. match_at P b' s' K) of
        Some r \<Rightarrow> Some r
      | None \<Rightarrow> match_at BC True s (\<lambda>b' s'. match_at P b' s' K))"
  by simp

lemma match_marker:
  "match_at re_marker True s (\<lambda>_ t. Some t) = after_marker s"
proof -
  have "match_at re_marker True s (\<lambda>_ t. Some t) =
     (case match_at (Seq (Plus is_decimal) (Sym (is_char 46))) True s
             (\<lambda>b' s'. match_at (Plus is_space) b' s' (\<lambda>_ t. Some t)) of
        Some r \<Rightarrow> Some r
      | None \<Rightarrow> match_at (Alt (Sym (is_char 45)) (Sym (is_char 42))) True s
             (\<lambda>b' s'. match_at (Plus is_space) b' s' (\<lambda>_ t. Some t)))"
    unfolding re_marker_def by (rule marker_shape)
  also have "\<dots> = after_marker s"
    unfolding number_marker sign_marker after_marker_def
    using not_decimal_marks
    by (cases s) (auto split: list.splits)
  finally show ?thesis .
qed

lemma re_sub_marker: "re_sub re_marker [] s = drop_marker s"
proof (cases s)
  case Nil
  then show ?thesis by (simp add: re_sub_def drop_marker_def after_marker_def)
next
  case (Cons c cs)
  have b: "sub_from re_marker [] False t = t" for t
    unfolding re_marker_def by (rule sub_from_Bol_False)
  have l: "length t < length s" if t: "after_marker s = Some t" for t
  proof (cases "is_decimal c")
    case True
    then obtain e r where d: "dropWhile is_decimal cs = 46 # e # r" "t = dropWhile is_space r"
      using t unfolding Cons after_marker_def
      by (auto split: list.splits if_splits)
    have "length t \<le> length r"
      unfolding d(2) by (rule length_dropWhile_le)
    moreover have "length (46 # e # r) \<le> length cs"
      unfolding d(1)[symmetric] by (rule length_dropWhile_le)
    ultimately show ?thesis unfolding Cons by simp
  next
    case False
    then obtain e r where d: "cs = e # r" "t = dropWhile is_space r"
      using t unfolding Cons after_marker_def
      by (auto split: list.splits if_splits)
    have "length t \<le> length r"
      unfolding d(2) by (rule length_dropWhile_le)
    then show ?thesis unfolding Cons d(1) by simp
  qed
  show ?thesis
  proof (cases "after_marker s")
    case None
    then show ?thesis
      using match_marker[of s] unfolding Cons by (simp add: re_sub_def drop_marker_def b)
  next
    case (Some t)
    then show ?thesis
      using match_marker[of s] l[OF Some] unfolding Cons
      by (simp add: re_sub_def drop_marker_def b)
  qed
qed

lemma re_sub_initial_quote: "re_sub re_initial_quote [] s = drop_initial_quote s"
proof (cases s)
  case Nil
  then show ?thesis by (simp add: re_sub_def drop_initial_quote_def)
next
  case (Cons c cs)
  have b: "sub_from re_initial_quote [] False t = t" for t
    unfolding re_initial_quote_def by (rule sub_from_Bol_False)
  have m: "match_at re_initial_quote True (c # cs) (\<lambda>_ t. Some t) =
      (if is_quote c then Some cs else None)"
    by (simp add: re_initial_quote_def)
  show ?thesis
    unfolding Cons re_sub_def drop_initial_quote_def
    by (simp add: b m)
qed

lemma not_quote_10: "\<not> is_quote 10"
  by (simp add: is_quote_def)

lemma sub_from_trailing_quote: "sub_from re_trailing_quote [] b s = strip_tq s"
proof (induction s arbitrary: b)
  case Nil
  then show ?case by simp
next
  case (Cons c cs)
  have m: "match_at re_trailing_quote b (c # cs) (\<lambda>_ t. Some t) =
      (if is_quote c \<and> (cs = [] \<or> cs = [10]) then Some cs else None)"
    by (simp add: re_trailing_quote_def)
  have t: "strip_tq [10] = [10]"
    by (simp add: not_quote_10)
  show ?case
    using Cons[of False] t by (auto simp: m simp del: strip_tq.simps(2)) (simp_all add: not_quote_10)
qed

lemma strip_tq_eq:
  "s = [] \<or> last s \<noteq> 10 \<Longrightarrow> strip_tq s = drop_trailing_quote s"
proof (induction s)
  case Nil
  then show ?case by (simp add: drop_trailing_quote_def)
next
  case (Cons c cs)
  show ?case
  proof (cases "cs = []")
    case True
    then show ?thesis by (simp add: drop_trailing_quote_def)
  next
    case False
    then have "strip_tq cs = drop_trailing_quote cs" "cs \<noteq> [10]"
      using Cons by auto
    then show ?thesis
      using False by (simp add: drop_trailing_quote_def)
  qed
qed

lemma sub_from_quote_colon: "sub_from re_quote_colon [58] b s = unquote_before_colon s"
proof (induction s arbitrary: b rule: unquote_before_colon.induct)
  case (1 q c r)
  have m: "match_at re_quote_colon b (q # c # r) (\<lambda>_ t. Some t) =
      (if is_quote q \<and> c = 58 then Some r else None)"
    by (simp add: re_quote_colon_def is_char_def)
  show ?case
    using 1(1)[of False] 1(2)[of False] by (simp add: m)
next
  case (2 c)
  then show ?case by (simp add: re_quote_colon_def)
next
  case 3
  then show ?case by simp
qed

lemma sub_from_colon_quote: "sub_from re_colon_quote [58] b s = unquote_after_colon s"
proof (induction s arbitrary: b rule: unquote_after_colon.induct)
  case (1 c q r)
  have m: "match_at re_colon_quote b (c # q # r) (\<lambda>_ t. Some t) =
      (if c = 58 \<and> is_quote q then Some r else None)"
    by (simp add: re_colon_quote_def is_char_def)
  show ?case
    using 1(1)[of False] 1(2)[of False] by (simp add: m)
next
  case (2 c)
  then show ?case by (simp add: re_colon_quote_def)
next
  case 3
  then show ?case by simp
qed

lemma sub_from_backslash_n: "sub_from re_backslash_n [] b s = remove_backslash_n s"
proof (induction s arbitrary: b rule: remove_backslash_n.induct)
  case (1 c q r)
  have m: "match_at re_backslash_n b (c # q # r) (\<lambda>_ t. Some t) =
      (if c = 92 \<and> q = 110 then Some r else None)"
    by (simp add: re_backslash_n_def is_char_def)
  show ?case
    using 1(1)[of False] 1(2)[of False] by (simp add: m)
next
  case (2 c)
  then show ?case by (simp add: re_backslash_n_def)
next
  case 3
  then show ?case by simp
qed

lemma strip_last: "strip s \<noteq> [] \<Longrightarrow> \<not> is_space (last (strip s))"
proof -
  let ?x = "dropWhile is_space (rev (lstrip s))"
  assume "strip s \<noteq> []"
  then have x: "?x \<noteq> []" by (simp add: strip_def rstrip_def)
  then have "\<not> is_space (hd ?x)" by (rule hd_dropWhile)
  moreover have "last (strip s) = hd ?x"
    using x by (simp add: strip_def rstrip_def last_rev)
  ultimately show ?thesis by simp
qed

lemma suffix_after_marker: "after_marker s = Some t \<Longrightarrow> suffix t s"
proof (cases s)
  case Nil
  then show "after_marker s = Some t \<Longrightarrow> suffix t s" by (simp add: after_marker_def)
next
  case (Cons c cs)
  assume t: "after_marker s = Some t"
  have sp: "suffix (dropWhile is_space r) r" for r
    by (rule suffix_dropWhile)
  show "suffix t s"
  proof (cases "is_decimal c")
    case True
    then obtain e r where d: "dropWhile is_decimal cs = 46 # e # r" "t = dropWhile is_space r"
      using t unfolding Cons after_marker_def by (auto split: list.splits if_splits)
    have "suffix (46 # e # r) cs"
      unfolding d(1)[symmetric] by (rule suffix_dropWhile)
    then have "suffix (e # r) cs"
      by (rule suffix_ConsD)
    then have "suffix r cs"
      by (rule suffix_ConsD)
    then have "suffix r (c # cs)"
      by (rule suffix_ConsI)
    then show ?thesis
      unfolding Cons d(2) by (rule suffix_order.order_trans[OF sp])
  next
    case False
    then obtain e r where d: "cs = e # r" "t = dropWhile is_space r"
      using t unfolding Cons after_marker_def by (auto split: list.splits if_splits)
    have "suffix r (c # e # r)"
      by (simp add: suffix_ConsI)
    then show ?thesis
      unfolding Cons d by (rule suffix_order.order_trans[OF sp])
  qed
qed

lemma suffix_drop_marker: "suffix (drop_marker s) s"
  by (cases "after_marker s") (simp_all add: drop_marker_def suffix_after_marker)

lemma suffix_drop_initial_quote: "suffix (drop_initial_quote s) s"
  by (cases s) (simp_all add: drop_initial_quote_def suffix_ConsI)

lemma suffix_last: "suffix x y \<Longrightarrow> x \<noteq> [] \<Longrightarrow> last x = last y"
  by (auto simp: suffix_def)

lemma before_trailing_quote:
  "drop_initial_quote (drop_marker (strip m)) = [] \<or>
   last (drop_initial_quote (drop_marker (strip m))) \<noteq> 10"
proof (cases "drop_initial_quote (drop_marker (strip m)) = []")
  case True
  then show ?thesis by simp
next
  case False
  have s: "suffix (drop_initial_quote (drop_marker (strip m))) (strip m)"
    by (rule suffix_order.order_trans[OF suffix_drop_initial_quote suffix_drop_marker])
  then have "strip m \<noteq> []"
    using False by (auto simp: suffix_def)
  then have n: "\<not> is_space (last (strip m))"
    by (rule strip_last)
  have e: "last (drop_initial_quote (drop_marker (strip m))) = last (strip m)"
    by (rule suffix_last[OF s False])
  have t: "is_space 10" by (simp add: is_space_def)
  have "last (strip m) \<noteq> 10"
  proof
    assume "last (strip m) = 10"
    then show False using n t by simp
  qed
  then show ?thesis
    unfolding e by (rule disjI2)
qed

lemma normalize_message_filter_eq: "normalize_message_filter m = clean_line m"
proof -
  have "re_sub re_trailing_quote [] (drop_initial_quote (drop_marker (strip m))) =
      drop_trailing_quote (drop_initial_quote (drop_marker (strip m)))"
    unfolding re_sub_def sub_from_trailing_quote
    by (rule strip_tq_eq[OF before_trailing_quote])
  moreover have "re_sub re_quote_colon [58] x = unquote_before_colon x"
    "re_sub re_colon_quote [58] x = unquote_after_colon x"
    "re_sub re_backslash_n [] x = remove_backslash_n x" for x
    unfolding re_sub_def
    by (rule sub_from_quote_colon sub_from_colon_quote sub_from_backslash_n)+
  ultimately show ?thesis
    unfolding normalize_message_filter_def clean_line_def Let_def
    by (simp only: re_sub_marker re_sub_initial_quote)
qed

subsection \<open>Lines\<close>

lemma join_Cons: "join sep (x # L) = x @ concat (map (\<lambda>y. sep @ y) L)"
  by (simp add: join_def)

lemma concat_sep: "L \<noteq> [] \<Longrightarrow> concat (map (\<lambda>y. sep @ y) L) = sep @ join sep L"
  by (cases L) (simp_all add: join_Cons)

lemma join_split_from: "sep \<noteq> [] \<Longrightarrow> join sep (split_from sep acc s) = acc @ s"
proof (induction sep acc s rule: split_from.induct)
  case (1 sep acc)
  then show ?case by (simp add: join_def)
next
  case (2 sep acc c cs)
  show ?case
  proof (cases "prefix sep (c # cs)")
    case True
    then obtain r where r: "c # cs = sep @ r"
      by (auto simp: prefix_def)
    have "drop (length sep) (sep @ r) = r" by simp
    then have d: "drop (length sep) (c # cs) = r"
      by (simp only: r)
    have e: "split_from sep acc (c # cs) = acc # split_from sep [] r"
      using True 2(3) by (simp only: split_from.simps d simp_thms if_True)
    have "join sep (split_from sep [] r) = r"
      using 2(1) True 2(3) by (simp only: d simp_thms append_Nil)
    then have "join sep (acc # split_from sep [] r) = acc @ sep @ r"
      by (simp add: join_Cons concat_sep[OF split_from_not_Nil])
    moreover have "acc @ c # cs = acc @ sep @ r"
      by (simp only: r)
    ultimately show ?thesis
      by (simp only: e)
  next
    case False
    then show ?thesis using 2(2) 2(3) by simp
  qed
qed

lemma split_from_pieces:
  "c \<notin> set acc \<Longrightarrow> list_all (\<lambda>l. c \<notin> set l) (split_from [c] acc s)"
proof (induction "[c]" acc s rule: split_from.induct)
  case (1 acc)
  then show ?case by simp
next
  case (2 acc d ds)
  then show ?case by (cases "d = c") auto
qed

lemma example_branch:
  "snd (get_current_branch 0 example_world) = Inr (Some (u ''feature/IOS-12--login''))"
  by code_simp

section \<open>Claims\<close>

text \<open>
  C7. The suggestion list is an ordered sequence. Normalization keeps the relative order of
  the lines of the response text: its result is the normalizer mapped over a subsequence of
  the lines. The prefixer keeps the relative order of the suggestions it keeps: when the
  branch lookup returns, its result is one function (the prefix put before the stripped
  suggestion on a feature branch, the identity otherwise) mapped over a subsequence of its
  input.
\<close>

theorem order_preserved:
  "(\<exists>ls. subseq ls (str_split c [10]) \<and> normalize_messages c = map normalize_message_filter ls)
   \<and> (snd (get_current_branch 0 w) = Inr bn \<longrightarrow>
       (\<exists>ks. subseq ks ss \<and>
          snd (add_prefix_to_suggestions ss w) =
            Inr (map (\<lambda>s. if on_feature_branch bn then prefix_of_branch bn @ strip s else s) ks)))"
proof (intro conjI impI)
  let ?ls = "filter (\<lambda>m. length m > 1) (drop 1 (str_split c [10]))"
  have "subseq ?ls (drop 1 (str_split c [10]))" by simp
  then have "subseq ?ls (str_split c [10])"
    using subseq_drop subseq_order.order_trans by blast
  then show "\<exists>ls. subseq ls (str_split c [10]) \<and>
               normalize_messages c = map normalize_message_filter ls"
    using normalize_messages_eq by blast
next
  assume b: "snd (get_current_branch 0 w) = Inr bn"
  show "\<exists>ks. subseq ks ss \<and>
          snd (add_prefix_to_suggestions ss w) =
            Inr (map (\<lambda>s. if on_feature_branch bn then prefix_of_branch bn @ strip s else s) ks)"
  proof (cases "on_feature_branch bn")
    case True
    then show ?thesis
      using b by (intro exI[of _ "filter (\<lambda>s. strip s \<noteq> []) ss"])
                 (simp add: add_prefix_value prefix_suggestions_eq)
  next
    case False
    then show ?thesis
      using b by (intro exI[of _ ss]) (simp add: add_prefix_value prefix_suggestions_eq)
  qed
qed

theorem order_preserved_witness:
  "snd (get_current_branch 0 example_world) = Inr (Some (u ''feature/IOS-12--login''))
   \<and> (\<exists>ks. subseq ks [u ''fix: login'', u '' '', u ''add: test''] \<and>
          snd (add_prefix_to_suggestions [u ''fix: login'', u '' '', u ''add: test''] example_world) =
            Inr (map (\<lambda>s. if on_feature_branch (Some (u ''feature/IOS-12--login''))
                           then prefix_of_branch (Some (u ''feature/IOS-12--login'')) @ strip s
                           else s) ks))"
  using order_preserved [of example_answer example_world "Some (u ''feature/IOS-12--login'')"
      "[u ''fix: login'', u '' '', u ''add: test'']"] example_branch
  by blast

text \<open>
  C9. Response processing is total at the parse stage. For a missing response, and for a
  response whose JSON body lacks the path \<open>['choices'][0]['message']['content']\<close>,
  \<open>process_response\<close> returns the empty list instead of raising; a non-empty list is
  returned only when the path exists (and holds the string that was normalized); and
  unless \<open>json()\<close> is interrupted from the keyboard, \<open>process_response\<close> returns a list.
\<close>

theorem process_response_total:
  "snd (process_response None) = Inr []
   \<and> (body r = Inr j \<longrightarrow> response_content j = Inl e \<longrightarrow> snd (process_response (Some r)) = Inr [])
   \<and> (snd (process_response (Some r)) = Inr (x # xs) \<longrightarrow>
        (\<exists>j c. body r = Inr j \<and> response_content j = Inr (JStr c) \<and> normalize_messages c = x # xs))
   \<and> (body r \<noteq> Inl KeyboardInterrupt \<longrightarrow> (\<exists>l. snd (process_response (Some r)) = Inr l))"
proof (intro conjI impI)
  show "snd (process_response None) = Inr []"
    by (simp add: process_response_def comp_defs)
next
  assume "body r = Inr j" "response_content j = Inl e"
  then show "snd (process_response (Some r)) = Inr []"
    using response_content_exn[of j e]
    by (simp add: process_response_def comp_defs)
next
  assume "snd (process_response (Some r)) = Inr (x # xs)"
  then show "\<exists>j c. body r = Inr j \<and> response_content j = Inr (JStr c) \<and> normalize_messages c = x # xs"
    by (auto simp: process_response_def comp_defs normalize_json_def
        split: sum.splits if_splits json.splits)
next
  assume "body r \<noteq> Inl KeyboardInterrupt"
  then show "\<exists>l. snd (process_response (Some r)) = Inr l"
    using response_content_exn
    by (auto simp: process_response_def comp_defs normalize_json_def is_Exception_def
        split: sum.splits if_splits json.splits)
qed

theorem process_response_total_witness:
  "body no_content_response = Inr (JObj [(u ''error'', JStr (u ''quota''))])
   \<and> response_content (JObj [(u ''error'', JStr (u ''quota''))]) = Inl KeyError
   \<and> snd (process_response (Some no_content_response)) = Inr []"
proof -
  have b: "body no_content_response = Inr (JObj [(u ''error'', JStr (u ''quota''))])"
    by (simp add: no_content_response_def)
  have c: "response_content (JObj [(u ''error'', JStr (u ''quota''))]) = Inl KeyError"
    by code_simp
  show ?thesis
    using process_response_total [of no_content_response "JObj [(u ''error'', JStr (u ''quota''))]"
        KeyError] b c
    by blast
qed

text \<open>
  C2. When the request is built, its tokens are counted and the configured maximum is an
  integer, the confirmation prompt is shown if and only if the token count exceeds the
  maximum. When the count is at or below the maximum the check returns true,
  \<open>get_commit_suggestions\<close> never asks the user, and (the API key and URL being
  configured) it performs the HTTP request.
\<close>

theorem token_confirmation:
  assumes "snd (prepare_request_data diff config w) = Inr data"
    and "tokens w data = Inr n"
    and "dict_get config MAX_TOKEN_COUNT = Inr (JInt mx)"
  shows "(AskProceed \<in> set (fst (check_token_count_and_get_confirmation diff config w)) \<longleftrightarrow> n > mx)
   \<and> (n \<le> mx \<longrightarrow>
        snd (check_token_count_and_get_confirmation diff config w) = Inr True
        \<and> AskProceed \<notin> set (fst (get_commit_suggestions diff config w))
        \<and> (dict_get config OPENAI_API_KEY = Inr k \<longrightarrow> dict_get config OPENAI_API_URL = Inr url \<longrightarrow>
             HttpPost \<in> set (fst (get_commit_suggestions diff config w))))"
proof (intro conjI impI)
  show "AskProceed \<in> set (fst (check_token_count_and_get_confirmation diff config w)) \<longleftrightarrow> n > mx"
    by (simp add: check_value[OF assms])
next
  assume le: "n \<le> mx"
  then show "snd (check_token_count_and_get_confirmation diff config w) = Inr True"
    by (simp add: check_value[OF assms])
  show "AskProceed \<notin> set (fst (get_commit_suggestions diff config w))"
    using le assms(1) send_trace[of data config w]
    unfolding get_commit_suggestions_def
    by (auto simp: check_value[OF assms] fst_bind snd_bind prepare_request_data_trace
        process_response_trace add_prefix_trace ret_def split: sum.splits)
  assume "dict_get config OPENAI_API_KEY = Inr k" "dict_get config OPENAI_API_URL = Inr url"
  then show "HttpPost \<in> set (fst (get_commit_suggestions diff config w))"
    using le assms(1) send_trace_post[of config k url data w]
    unfolding get_commit_suggestions_def
    by (auto simp: check_value[OF assms] fst_bind snd_bind prepare_request_data_trace
        process_response_trace add_prefix_trace ret_def split: sum.splits)
qed

theorem token_confirmation_witness:
  "snd (prepare_request_data (u ''+ new line'') example_config example_world) =
     Inr \<lparr>model = JStr (u ''gpt-3.5-turbo''),
          content = u ''Suggest commit messages for {diff}+ new line'',
          temperature = JFloat (7 / 10)\<rparr>
   \<and> (10::int) \<le> 4000
   \<and> snd (check_token_count_and_get_confirmation (u ''+ new line'') example_config example_world)
       = Inr True
   \<and> AskProceed \<notin> set (fst (get_commit_suggestions (u ''+ new line'') example_config example_world))
   \<and> HttpPost \<in> set (fst (get_commit_suggestions (u ''+ new line'') example_config example_world))
   \<and> (4000::int) < 5000
   \<and> AskProceed \<in> set (fst (check_token_count_and_get_confirmation (u ''+ new line'')
         example_config (example_world\<lparr>tokens := (\<lambda>_. Inr 5000)\<rparr>)))"
proof -
  have p: "snd (prepare_request_data (u ''+ new line'') example_config example_world) =
     Inr \<lparr>model = JStr (u ''gpt-3.5-turbo''),
          content = u ''Suggest commit messages for {diff}+ new line'',
          temperature = JFloat (7 / 10)\<rparr>"
    by code_simp
  have t: "tokens example_world \<lparr>model = JStr (u ''gpt-3.5-turbo''),
          content = u ''Suggest commit messages for {diff}+ new line'',
          temperature = JFloat (7 / 10)\<rparr> = Inr 10"
    by (simp add: example_world_def)
  have m: "dict_get example_config MAX_TOKEN_COUNT = Inr (JInt 4000)"
    by code_simp
  have k: "dict_get example_config OPENAI_API_KEY = Inr (JStr (u ''sk-1''))"
    by code_simp
  have l: "dict_get example_config OPENAI_API_URL =
      Inr (JStr (u ''https://api.openai.com/v1/chat/completions''))"
    by code_simp
  let ?w = "example_world\<lparr>tokens := (\<lambda>_. Inr 5000)\<rparr>"
  have p': "snd (prepare_request_data (u ''+ new line'') example_config ?w) =
     Inr \<lparr>model = JStr (u ''gpt-3.5-turbo''),
          content = u ''Suggest commit messages for {diff}+ new line'',
          temperature = JFloat (7 / 10)\<rparr>"
    by code_simp
  have t': "tokens ?w \<lparr>model = JStr (u ''gpt-3.5-turbo''),
          content = u ''Suggest commit messages for {diff}+ new line'',
          temperature = JFloat (7 / 10)\<rparr> = Inr 5000"
    by simp
  have a: "AskProceed \<in> set (fst (check_token_count_and_get_confirmation (u ''+ new line'')
         example_config ?w))"
    using token_confirmation [OF p' t' m] by simp
  show ?thesis
    using token_confirmation [OF p t m] p k l a by simp
qed



text \<open>
  C6, as the claim states it, fails: with the API down, \<open>send_request_to_openai\<close> returns
  \<open>None\<close>, and its caller does not abort the remaining steps. Response processing and the
  branch prefixer are still entered, and the branch is looked up.
\<close>

theorem api_failure_counterexample:
  "snd (send_request_to_openai \<lparr>model = JNull, content = [], temperature = JNull\<rparr>
          example_config api_down_world) = Inr None
   \<and> stages (fst (main api_down_world)) =
       [ObtainDiff, BuildRequest, BuildRequest, CallApi, NormalizeResponse, PrefixByBranch]
   \<and> BranchLookup \<in> set (fst (main api_down_world))"
  by code_simp

text \<open>
  C6, amended. Each of the three calls is wrapped. A diff fetch or a commit that fails with
  \<open>CalledProcessError\<close> makes its wrapper return \<open>None\<close>, any other exception propagates,
  and a call that succeeds gives its output. An API request fails when the URL is not
  configured, when \<open>requests.post\<close> raises, when the status is an HTTP error or when the
  body is not JSON: each makes \<open>send_request_to_openai\<close> return \<open>None\<close>, and only a
  response with a good status and a JSON body is returned. After a diff fetch that gives
  no non-empty diff, \<open>main\<close> runs nothing more. After a failed API request the caller
  still enters response processing and the branch prefixer, on the empty result, and the
  run ends there, with no prompt and no commit.
\<close>

theorem failure_propagation:
  "(dict_get config GIT_COMMAND = Inr cmd \<longrightarrow> git_diff w cmd = Inl e \<longrightarrow>
      snd (get_git_diff config w) = (if e = CalledProcessError then Inr None else Inl e))
   \<and> (dict_get config GIT_COMMAND = Inr cmd \<longrightarrow> git_diff w cmd = Inr out \<longrightarrow>
      snd (get_git_diff config w) = Inr (Some out))
   \<and> (dict_get config OPENAI_API_KEY = Inr k \<longrightarrow> dict_get config OPENAI_API_URL = Inl e \<longrightarrow>
      snd (send_request_to_openai data config w) = Inr None)
   \<and> (dict_get config OPENAI_API_KEY = Inr k \<longrightarrow> dict_get config OPENAI_API_URL = Inr url \<longrightarrow>
      http_post w url k data = Inl e \<longrightarrow>
      snd (send_request_to_openai data config w) = Inr None)
   \<and> (dict_get config OPENAI_API_KEY = Inr k \<longrightarrow> dict_get config OPENAI_API_URL = Inr url \<longrightarrow>
      http_post w url k data = Inr resp \<longrightarrow> \<not> status_ok resp \<longrightarrow>
      snd (send_request_to_openai data config w) = Inr None)
   \<and> (dict_get config OPENAI_API_KEY = Inr k \<longrightarrow> dict_get config OPENAI_API_URL = Inr url \<longrightarrow>
      http_post w url k data = Inr resp \<longrightarrow> body resp = Inl e \<longrightarrow>
      snd (send_request_to_openai data config w) = Inr None)
   \<and> (dict_get config OPENAI_API_KEY = Inr k \<longrightarrow> dict_get config OPENAI_API_URL = Inr url \<longrightarrow>
      http_post w url k data = Inr resp \<longrightarrow> status_ok resp \<longrightarrow> body resp = Inr j \<longrightarrow>
      snd (send_request_to_openai data config w) = Inr (Some resp))
   \<and> (git_commit w msg = Inl e \<longrightarrow>
      snd (make_commit msg w) = (if e = CalledProcessError then Inr None else Inl e))
   \<and> (git_commit w msg = Inr out \<longrightarrow> snd (make_commit msg w) = Inr (Some out))
   \<and> (snd (load_config w) = Inr config \<longrightarrow>
      (\<forall>c cs. snd (get_git_diff config w) \<noteq> Inr (Some (c # cs))) \<longrightarrow>
      fst (main w) = fst (load_config w) @ fst (get_git_diff config w))
   \<and> (snd (check_token_count_and_get_confirmation diff config w) = Inr True \<longrightarrow>
      snd (prepare_request_data diff config w) = Inr data \<longrightarrow>
      snd (send_request_to_openai data config w) = Inr None \<longrightarrow>
      fst (process_diff diff config w) =
        fst (check_token_count_and_get_confirmation diff config w) @ [Enter BuildRequest]
        @ fst (send_request_to_openai data config w)
        @ [Enter NormalizeResponse, Enter PrefixByBranch, BranchLookup])"
proof (intro conjI impI)
  assume "dict_get config GIT_COMMAND = Inr cmd" "git_diff w cmd = Inl e"
  then show "snd (get_git_diff config w) = (if e = CalledProcessError then Inr None else Inl e)"
    by (rule get_git_diff_failure)
next
  assume "dict_get config GIT_COMMAND = Inr cmd" "git_diff w cmd = Inr out"
  then show "snd (get_git_diff config w) = Inr (Some out)"
    by (rule get_git_diff_success)
next
  assume "dict_get config OPENAI_API_KEY = Inr k" "dict_get config OPENAI_API_URL = Inl e"
  then show "snd (send_request_to_openai data config w) = Inr None"
    by (simp add: send_value)
next
  assume "dict_get config OPENAI_API_KEY = Inr k" "dict_get config OPENAI_API_URL = Inr url"
    "http_post w url k data = Inl e"
  then show "snd (send_request_to_openai data config w) = Inr None"
    by (simp add: send_value)
next
  assume "dict_get config OPENAI_API_KEY = Inr k" "dict_get config OPENAI_API_URL = Inr url"
    "http_post w url k data = Inr resp" "\<not> status_ok resp"
  then show "snd (send_request_to_openai data config w) = Inr None"
    by (simp add: send_value split: sum.splits)
next
  assume "dict_get config OPENAI_API_KEY = Inr k" "dict_get config OPENAI_API_URL = Inr url"
    "http_post w url k data = Inr resp" "body resp = Inl e"
  then show "snd (send_request_to_openai data config w) = Inr None"
    by (simp add: send_value)
next
  assume "dict_get config OPENAI_API_KEY = Inr k" "dict_get config OPENAI_API_URL = Inr url"
    "http_post w url k data = Inr resp" "status_ok resp" "body resp = Inr j"
  then show "snd (send_request_to_openai data config w) = Inr (Some resp)"
    by (simp add: send_value)
next
  assume "git_commit w msg = Inl e"
  then show "snd (make_commit msg w) = (if e = CalledProcessError then Inr None else Inl e)"
    by (rule make_commit_failure)
next
  assume "git_commit w msg = Inr out"
  then show "snd (make_commit msg w) = Inr (Some out)"
    by (rule make_commit_success)
next
  assume "snd (load_config w) = Inr config"
    "\<forall>c cs. snd (get_git_diff config w) \<noteq> Inr (Some (c # cs))"
  then show "fst (main w) = fst (load_config w) @ fst (get_git_diff config w)"
    by (rule main_after_diff_failure)
next
  assume "snd (check_token_count_and_get_confirmation diff config w) = Inr True"
    "snd (prepare_request_data diff config w) = Inr data"
    "snd (send_request_to_openai data config w) = Inr None"
  then show "fst (process_diff diff config w) =
        fst (check_token_count_and_get_confirmation diff config w) @ [Enter BuildRequest]
        @ fst (send_request_to_openai data config w)
        @ [Enter NormalizeResponse, Enter PrefixByBranch, BranchLookup]"
    by (rule after_api_failure)
qed

theorem failure_propagation_witness:
  "snd (get_git_diff example_config (example_world\<lparr>git_diff := (\<lambda>_. Inl CalledProcessError)\<rparr>))
     = Inr None
   \<and> snd (get_git_diff example_config example_world) = Inr (Some (u ''+ new line''))
   \<and> fst (main (example_world\<lparr>git_diff := (\<lambda>_. Inl CalledProcessError)\<rparr>))
     = [ReadConfig, Enter ObtainDiff, RunGitDiff]
   \<and> snd (send_request_to_openai \<lparr>model = JNull, content = [], temperature = JNull\<rparr>
          [(OPENAI_API_KEY, JStr (u ''sk-1''))] example_world) = Inr None
   \<and> snd (send_request_to_openai \<lparr>model = JNull, content = [], temperature = JNull\<rparr>
          example_config api_down_world) = Inr None
   \<and> snd (send_request_to_openai \<lparr>model = JNull, content = [], temperature = JNull\<rparr>
          example_config
          (example_world\<lparr>http_post :=
             (\<lambda>_ _ _. Inr \<lparr>status_ok = False, body = Inr example_body\<rparr>)\<rparr>)) = Inr None
   \<and> snd (send_request_to_openai \<lparr>model = JNull, content = [], temperature = JNull\<rparr>
          example_config
          (example_world\<lparr>http_post :=
             (\<lambda>_ _ _. Inr \<lparr>status_ok = True, body = Inl OtherException\<rparr>)\<rparr>)) = Inr None
   \<and> snd (send_request_to_openai \<lparr>model = JNull, content = [], temperature = JNull\<rparr>
          example_config example_world) = Inr (Some \<lparr>status_ok = True, body = Inr example_body\<rparr>)
   \<and> snd (make_commit (u ''fix'') (example_world\<lparr>git_commit := (\<lambda>_. Inl CalledProcessError)\<rparr>))
     = Inr None
   \<and> snd (make_commit (u ''fix'') example_world) = Inr (Some (u ''committed''))
   \<and> fst (process_diff (u ''+ new line'') example_config api_down_world) =
       [Enter BuildRequest, CountTokens, Enter BuildRequest, Enter CallApi, HttpPost,
        Enter NormalizeResponse, Enter PrefixByBranch, BranchLookup]"
proof -
  let ?w1 = "example_world\<lparr>git_diff := (\<lambda>_. Inl CalledProcessError)\<rparr>"
  let ?w3 = "example_world\<lparr>git_commit := (\<lambda>_. Inl CalledProcessError)\<rparr>"
  let ?ws = "example_world\<lparr>http_post :=
      (\<lambda>_ _ _. Inr \<lparr>status_ok = False, body = Inr example_body\<rparr>)\<rparr>"
  let ?wb = "example_world\<lparr>http_post :=
      (\<lambda>_ _ _. Inr \<lparr>status_ok = True, body = Inl OtherException\<rparr>)\<rparr>"
  let ?cmd = "JList [JStr (u ''git''), JStr (u ''diff''), JStr (u ''--cached'')]"
  let ?d = "\<lparr>model = JNull, content = [], temperature = JNull\<rparr>"
  let ?k = "JStr (u ''sk-1'')"
  let ?url = "JStr (u ''https://api.openai.com/v1/chat/completions'')"
  let ?c0 = "[(OPENAI_API_KEY, JStr (u ''sk-1''))]"
  have g: "dict_get example_config GIT_COMMAND = Inr ?cmd" by code_simp
  have k: "dict_get example_config OPENAI_API_KEY = Inr ?k" by code_simp
  have l: "dict_get example_config OPENAI_API_URL = Inr ?url" by code_simp
  have k0: "dict_get ?c0 OPENAI_API_KEY = Inr ?k" by code_simp
  have l0: "dict_get ?c0 OPENAI_API_URL = Inl KeyError" by code_simp
  have d1: "git_diff ?w1 ?cmd = Inl CalledProcessError" by simp
  have d2: "git_diff example_world ?cmd = Inr (u ''+ new line'')"
    by (simp add: example_world_def)
  have p: "http_post api_down_world ?url ?k ?d = Inl OtherException"
    by (simp add: api_down_world_def)
  have ps: "http_post ?ws ?url ?k ?d = Inr \<lparr>status_ok = False, body = Inr example_body\<rparr>"
    by simp
  have pb: "http_post ?wb ?url ?k ?d = Inr \<lparr>status_ok = True, body = Inl OtherException\<rparr>"
    by simp
  have po: "http_post example_world ?url ?k ?d = Inr \<lparr>status_ok = True, body = Inr example_body\<rparr>"
    by (simp add: example_world_def)
  have c: "git_commit ?w3 (u ''fix'') = Inl CalledProcessError" by simp
  have co: "git_commit example_world (u ''fix'') = Inr (u ''committed'')"
    by (simp add: example_world_def)
  have lc: "snd (load_config ?w1) = Inr example_config" by code_simp
  have lt: "fst (load_config ?w1) = [ReadConfig]" by code_simp
  have gt: "fst (get_git_diff example_config ?w1) = [Enter ObtainDiff, RunGitDiff]"
    by (simp add: get_git_diff_trace g)
  note T1 = failure_propagation [where config = example_config and cmd = ?cmd and w = ?w1
      and e = CalledProcessError]
  have a1: "snd (get_git_diff example_config ?w1) = Inr None"
    using T1 g d1 by simp
  then have a2: "fst (main ?w1) = [ReadConfig, Enter ObtainDiff, RunGitDiff]"
    using T1 lc lt gt by simp
  have a1': "snd (get_git_diff example_config example_world) = Inr (Some (u ''+ new line''))"
    using failure_propagation [where config = example_config and cmd = ?cmd
        and w = example_world and out = "u ''+ new line''"] g d2 by blast
  have a3u: "snd (send_request_to_openai ?d ?c0 example_world) = Inr None"
    using failure_propagation [where config = ?c0 and w = example_world and k = ?k
        and e = KeyError and data = ?d] k0 l0 by blast
  have a3: "snd (send_request_to_openai ?d example_config api_down_world) = Inr None"
    using failure_propagation [where config = example_config and w = api_down_world
        and k = ?k and url = ?url and data = ?d and e = OtherException] k l p by blast
  have a3s: "snd (send_request_to_openai ?d example_config ?ws) = Inr None"
    using failure_propagation [where config = example_config and w = ?ws
        and k = ?k and url = ?url and data = ?d
        and resp = "\<lparr>status_ok = False, body = Inr example_body\<rparr>"] k l ps by simp
  have a3b: "snd (send_request_to_openai ?d example_config ?wb) = Inr None"
    using failure_propagation [where config = example_config and w = ?wb
        and k = ?k and url = ?url and data = ?d and e = OtherException
        and resp = "\<lparr>status_ok = True, body = Inl OtherException\<rparr>"] k l pb by simp
  have a3o: "snd (send_request_to_openai ?d example_config example_world) =
      Inr (Some \<lparr>status_ok = True, body = Inr example_body\<rparr>)"
    using failure_propagation [where config = example_config and w = example_world
        and k = ?k and url = ?url and data = ?d and j = example_body
        and resp = "\<lparr>status_ok = True, body = Inr example_body\<rparr>"] k l po by simp
  have a4: "snd (make_commit (u ''fix'') ?w3) = Inr None"
    using failure_propagation [where w = ?w3 and msg = "u ''fix''" and e = CalledProcessError] c
    by simp
  have a4': "snd (make_commit (u ''fix'') example_world) = Inr (Some (u ''committed''))"
    using failure_propagation [where w = example_world and msg = "u ''fix''"
        and out = "u ''committed''"] co by blast
  let ?r = "\<lparr>model = JStr (u ''gpt-3.5-turbo''),
      content = u ''Suggest commit messages for {diff}+ new line'',
      temperature = JFloat (7 / 10)\<rparr>"
  have c1: "check_token_count_and_get_confirmation (u ''+ new line'') example_config api_down_world
      = ([Enter BuildRequest, CountTokens], Inr True)" by code_simp
  have c2: "snd (prepare_request_data (u ''+ new line'') example_config api_down_world) = Inr ?r"
    by code_simp
  have c3: "send_request_to_openai ?r example_config api_down_world =
      ([Enter CallApi, HttpPost], Inr None)" by code_simp
  note T4 = failure_propagation [where config = example_config and w = api_down_world
      and diff = "u ''+ new line''" and data = ?r]
  have a5: "fst (process_diff (u ''+ new line'') example_config api_down_world) =
       [Enter BuildRequest, CountTokens, Enter BuildRequest, Enter CallApi, HttpPost,
        Enter NormalizeResponse, Enter PrefixByBranch, BranchLookup]"
    using T4 c1 c2 c3 by simp
  show ?thesis
    using a1 a1' a2 a3u a3 a3s a3b a3o a4 a4' a5 by (intro conjI)
qed

text \<open>
  C4 says that a newly entered key is persisted. The file is written inside the branch
  that asks for the task prefix only: with a configuration whose API key is the placeholder
  and whose task prefix is set, the key is asked for and returned, and nothing is written.
\<close>

theorem entered_key_not_persisted:
  "load_config key_only_world =
     ([ReadConfig, AskApiKey], Inr (dict_set example_config OPENAI_API_KEY (JStr (u ''sk-2''))))
   \<and> dict_get (dict_set example_config OPENAI_API_KEY (JStr (u ''sk-2''))) OPENAI_API_KEY =
       Inr (JStr (u ''sk-2''))"
  by code_simp

text \<open>
  C3, as the claim states it, fails: on the branch \<open>feature/IOS-12--login\<close> the prefix is
  not put before each suggestion. An empty suggestion (the normalizer gives one for a line
  of two quotes) is dropped, not prefixed.
\<close>

theorem empty_suggestion_counterexample:
  "snd (add_prefix_to_suggestions [u ''fix: login'', []] example_world) =
     Inr [u ''IOS-12: fix: login'']
   \<and> snd (add_prefix_to_suggestions [u ''fix: login'', []] example_world) \<noteq>
     Inr [u ''IOS-12: '' @ u ''fix: login'', u ''IOS-12: '' @ []]
   \<and> normalize_messages (u ''Sure:'' @ [10] @ u ''fix: login'' @ [10, 34, 34]) =
     [u ''fix: login'', []]"
  by code_simp

text \<open>
  C3, amended. When the branch name (the stripped output of the branch lookup) starts with
  \<open>feature/IOS-\<close>, the prefixer puts the task identifier and \<open>: \<close> before each suggestion
  that is not whitespace-only, stripped of its surrounding whitespace, and drops the
  others; \<open>get_prefix_name\<close> returns the same prefix. The task identifier is the last
  \<open>/\<close>-separated segment of the portion of the branch name before the first \<open>--\<close>. For any
  other branch name no prefix is put: the suggestions are returned as they are and the
  prefix is empty.
\<close>

theorem branch_prefix:
  "(git_branch w 0 = Inr out \<longrightarrow> startswith (strip out) (u ''feature/IOS-'') \<longrightarrow>
      (\<exists>p t. is_before_first (u ''--'') (strip out) p \<and> is_last_segment 47 p t
          \<and> suffix (47 # t) p
          \<and> snd (add_prefix_to_suggestions ss w) =
              Inr (map (\<lambda>s. t @ u '': '' @ strip s) (filter (\<lambda>s. strip s \<noteq> []) ss))))
   \<and> (git_branch w 0 = Inr out \<longrightarrow> \<not> startswith (strip out) (u ''feature/IOS-'') \<longrightarrow>
      snd (add_prefix_to_suggestions ss w) = Inr ss)
   \<and> (git_branch w 1 = Inr out' \<longrightarrow> startswith (strip out') (u ''feature/IOS-'') \<longrightarrow>
      (\<exists>p t. is_before_first (u ''--'') (strip out') p \<and> is_last_segment 47 p t
          \<and> suffix (47 # t) p
          \<and> snd (get_prefix_name w) = Inr (t @ u '': '')))
   \<and> (git_branch w 1 = Inr out' \<longrightarrow> \<not> startswith (strip out') (u ''feature/IOS-'') \<longrightarrow>
      snd (get_prefix_name w) = Inr [])"
proof (intro conjI impI)
  assume a: "git_branch w 0 = Inr out" "startswith (strip out) (u ''feature/IOS-'')"
  obtain p where "is_before_first (u ''--'') (strip out) p"
    "is_last_segment 47 p (task_id_of (strip out))" "suffix (47 # task_id_of (strip out)) p"
    using task_id_spec[OF a(2)] by blast
  then show "\<exists>p t. is_before_first (u ''--'') (strip out) p \<and> is_last_segment 47 p t
          \<and> suffix (47 # t) p
          \<and> snd (add_prefix_to_suggestions ss w) =
              Inr (map (\<lambda>s. t @ u '': '' @ strip s) (filter (\<lambda>s. strip s \<noteq> []) ss))"
    using add_prefix_on_feature[OF a] by blast
next
  assume "git_branch w 0 = Inr out" "\<not> startswith (strip out) (u ''feature/IOS-'')"
  then show "snd (add_prefix_to_suggestions ss w) = Inr ss"
    by (rule add_prefix_off_feature)
next
  assume a: "git_branch w 1 = Inr out'" "startswith (strip out') (u ''feature/IOS-'')"
  obtain p where "is_before_first (u ''--'') (strip out') p"
    "is_last_segment 47 p (task_id_of (strip out'))" "suffix (47 # task_id_of (strip out')) p"
    using task_id_spec[OF a(2)] by blast
  then show "\<exists>p t. is_before_first (u ''--'') (strip out') p \<and> is_last_segment 47 p t
          \<and> suffix (47 # t) p \<and> snd (get_prefix_name w) = Inr (t @ u '': '')"
    using get_prefix_name_value[OF a(1)] a(2) by auto
next
  assume "git_branch w 1 = Inr out'" "\<not> startswith (strip out') (u ''feature/IOS-'')"
  then show "snd (get_prefix_name w) = Inr []"
    by (simp add: get_prefix_name_value)
qed

theorem branch_prefix_witness:
  "git_branch example_world 0 = Inr (u ''feature/IOS-12--login'' @ [10])
   \<and> startswith (strip (u ''feature/IOS-12--login'' @ [10])) (u ''feature/IOS-'')
   \<and> snd (add_prefix_to_suggestions [u ''fix: login'', u ''add: test''] example_world) =
       Inr [u ''IOS-12: fix: login'', u ''IOS-12: add: test'']
   \<and> snd (get_prefix_name example_world) = Inr (u ''IOS-12: '')
   \<and> \<not> startswith (strip (u ''main'')) (u ''feature/IOS-'')
   \<and> snd (add_prefix_to_suggestions [u ''fix: login'', u ''add: test'']
            (example_world\<lparr>git_branch := (\<lambda>_. Inr (u ''main''))\<rparr>)) =
       Inr [u ''fix: login'', u ''add: test'']
   \<and> snd (get_prefix_name (example_world\<lparr>git_branch := (\<lambda>_. Inr (u ''main''))\<rparr>)) = Inr []"
proof -
  let ?out = "u ''feature/IOS-12--login'' @ [10]"
  let ?ss = "[u ''fix: login'', u ''add: test'']"
  let ?w = "example_world\<lparr>git_branch := (\<lambda>_. Inr (u ''main''))\<rparr>"
  have g: "git_branch example_world 0 = Inr ?out" "git_branch example_world 1 = Inr ?out"
    by (simp_all add: example_world_def)
  have st: "startswith (strip ?out) (u ''feature/IOS-'')" by code_simp
  have b: "is_before_first (u ''--'') (strip ?out) (u ''feature/IOS-12'')"
    unfolding is_before_first_def by code_simp
  have l: "is_last_segment 47 (u ''feature/IOS-12'') (u ''IOS-12'')"
    unfolding is_last_segment_def by code_simp
  have ne: "u ''--'' \<noteq> []" by (simp add: u_def)
  note T = branch_prefix [of example_world ?out ?ss ?out]
  obtain p t where pt: "is_before_first (u ''--'') (strip ?out) p" "is_last_segment 47 p t"
    "snd (add_prefix_to_suggestions ?ss example_world) =
       Inr (map (\<lambda>s. t @ u '': '' @ strip s) (filter (\<lambda>s. strip s \<noteq> []) ?ss))"
    using T g st by blast
  have "p = u ''feature/IOS-12''"
    using is_before_first_unique[OF ne pt(1) b] .
  then have "t = u ''IOS-12''"
    using is_last_segment_unique pt(2) l by blast
  moreover have "map (\<lambda>s. u ''IOS-12'' @ u '': '' @ strip s) (filter (\<lambda>s. strip s \<noteq> []) ?ss)
      = [u ''IOS-12: fix: login'', u ''IOS-12: add: test'']"
    by code_simp
  ultimately have a1: "snd (add_prefix_to_suggestions ?ss example_world) =
       Inr [u ''IOS-12: fix: login'', u ''IOS-12: add: test'']"
    using pt(3) by simp
  obtain p' t' where pt': "is_before_first (u ''--'') (strip ?out) p'" "is_last_segment 47 p' t'"
    "snd (get_prefix_name example_world) = Inr (t' @ u '': '')"
    using T g st by blast
  have "p' = u ''feature/IOS-12''"
    using is_before_first_unique[OF ne pt'(1) b] .
  then have "t' = u ''IOS-12''"
    using is_last_segment_unique pt'(2) l by blast
  moreover have "u ''IOS-12'' @ u '': '' = u ''IOS-12: ''" by code_simp
  ultimately have a2: "snd (get_prefix_name example_world) = Inr (u ''IOS-12: '')"
    using pt'(3) by simp
  have g': "git_branch ?w 0 = Inr (u ''main'')" "git_branch ?w 1 = Inr (u ''main'')"
    by simp_all
  have ns: "\<not> startswith (strip (u ''main'')) (u ''feature/IOS-'')" by code_simp
  note T' = branch_prefix [of ?w "u ''main''" ?ss "u ''main''"]
  have a3: "snd (add_prefix_to_suggestions ?ss ?w) = Inr ?ss"
    using T' g' ns by blast
  have a4: "snd (get_prefix_name ?w) = Inr []"
    using T' g' ns by blast
  show ?thesis
    using g(1) st a1 a2 ns a3 a4 by blast
qed

text \<open>
  C10. Empty suggestions are filtered in the branch-matching case only. On a branch that
  starts with \<open>feature/IOS-\<close> the whitespace-only suggestions are dropped, and every entry
  of the result is non-empty and begins with the task-id prefix. When the branch does not
  match, or the branch lookup fails, the input list is returned unchanged.
\<close>

theorem blank_suggestions_filtered:
  "(git_branch w 0 = Inr out \<longrightarrow> startswith (strip out) (u ''feature/IOS-'') \<longrightarrow>
      (\<exists>res. snd (add_prefix_to_suggestions ss w) = Inr res
         \<and> res = map (\<lambda>s. task_id_of (strip out) @ u '': '' @ strip s)
                   (filter (\<lambda>s. \<not> list_all is_space s) ss)
         \<and> list_all (\<lambda>x. x \<noteq> [] \<and> prefix (task_id_of (strip out) @ u '': '') x) res))
   \<and> (git_branch w 0 = Inr out \<longrightarrow> \<not> startswith (strip out) (u ''feature/IOS-'') \<longrightarrow>
      snd (add_prefix_to_suggestions ss w) = Inr ss)
   \<and> (git_branch w 0 = Inl CalledProcessError \<longrightarrow>
      snd (add_prefix_to_suggestions ss w) = Inr ss)"
proof (intro conjI impI)
  assume a: "git_branch w 0 = Inr out" "startswith (strip out) (u ''feature/IOS-'')"
  let ?res = "map (\<lambda>s. task_id_of (strip out) @ u '': '' @ strip s)
                   (filter (\<lambda>s. \<not> list_all is_space s) ss)"
  have "u '': '' \<noteq> []" by (simp add: u_def)
  then have "list_all (\<lambda>x. x \<noteq> [] \<and> prefix (task_id_of (strip out) @ u '': '') x) ?res"
    by (simp add: list_all_iff)
  then show "\<exists>res. snd (add_prefix_to_suggestions ss w) = Inr res
         \<and> res = map (\<lambda>s. task_id_of (strip out) @ u '': '' @ strip s)
                   (filter (\<lambda>s. \<not> list_all is_space s) ss)
         \<and> list_all (\<lambda>x. x \<noteq> [] \<and> prefix (task_id_of (strip out) @ u '': '') x) res"
    using add_prefix_on_feature[OF a, of ss] by (simp add: strip_Nil_iff)
next
  assume "git_branch w 0 = Inr out" "\<not> startswith (strip out) (u ''feature/IOS-'')"
  then show "snd (add_prefix_to_suggestions ss w) = Inr ss"
    by (rule add_prefix_off_feature)
next
  assume "git_branch w 0 = Inl CalledProcessError"
  then show "snd (add_prefix_to_suggestions ss w) = Inr ss"
    by (rule add_prefix_no_branch)
qed

theorem blank_suggestions_filtered_witness:
  "git_branch example_world 0 = Inr (u ''feature/IOS-12--login'' @ [10])
   \<and> startswith (strip (u ''feature/IOS-12--login'' @ [10])) (u ''feature/IOS-'')
   \<and> snd (add_prefix_to_suggestions [u ''fix: login'', [], u '' '', u '' add: test '']
            example_world) =
       Inr [u ''IOS-12: fix: login'', u ''IOS-12: add: test'']
   \<and> snd (add_prefix_to_suggestions [u ''fix: login'', [], u '' '', u '' add: test '']
            (example_world\<lparr>git_branch := (\<lambda>_. Inr (u ''main''))\<rparr>)) =
       Inr [u ''fix: login'', [], u '' '', u '' add: test '']
   \<and> snd (add_prefix_to_suggestions [u ''fix: login'', [], u '' '', u '' add: test '']
            (example_world\<lparr>git_branch := (\<lambda>_. Inl CalledProcessError)\<rparr>)) =
       Inr [u ''fix: login'', [], u '' '', u '' add: test '']"
proof -
  let ?out = "u ''feature/IOS-12--login'' @ [10]"
  let ?ss = "[u ''fix: login'', [], u '' '', u '' add: test '']"
  let ?w = "example_world\<lparr>git_branch := (\<lambda>_. Inr (u ''main''))\<rparr>"
  let ?v = "example_world\<lparr>git_branch := (\<lambda>_. Inl CalledProcessError)\<rparr>"
  have g: "git_branch example_world 0 = Inr ?out"
    by (simp add: example_world_def)
  have st: "startswith (strip ?out) (u ''feature/IOS-'')" by code_simp
  have e: "map (\<lambda>s. task_id_of (strip ?out) @ u '': '' @ strip s)
      (filter (\<lambda>s. \<not> list_all is_space s) ?ss)
      = [u ''IOS-12: fix: login'', u ''IOS-12: add: test'']"
    by code_simp
  have a1: "snd (add_prefix_to_suggestions ?ss example_world) =
       Inr [u ''IOS-12: fix: login'', u ''IOS-12: add: test'']"
    using blank_suggestions_filtered [of example_world ?out ?ss] g st e by auto
  have g': "git_branch ?w 0 = Inr (u ''main'')" by simp
  have ns: "\<not> startswith (strip (u ''main'')) (u ''feature/IOS-'')" by code_simp
  have a2: "snd (add_prefix_to_suggestions ?ss ?w) = Inr ?ss"
    using blank_suggestions_filtered [of ?w "u ''main''" ?ss] g' ns by blast
  have g'': "git_branch ?v 0 = Inl CalledProcessError" by simp
  have a3: "snd (add_prefix_to_suggestions ?ss ?v) = Inr ?ss"
    using blank_suggestions_filtered [of ?v _ ?ss] g'' by blast
  show ?thesis
    using g st a1 a2 a3 by blast
qed

text \<open>
  C1, as the claim states it, fails. The first line of the response is dropped, and so is
  a line of one character; the quote before a colon and the backslash-n sequence inside a
  line are removed, and trailing whitespace is stripped.
\<close>

theorem first_line_dropped_counterexample:
  "claimed_normalize_messages example_reply =
     [u ''Sure:'', u ''-'', u ''fix'' @ [39] @ u '': a'' @ [92] @ u ''nb'' @ [34, 32], u ''add: c'']
   \<and> normalize_messages example_reply = [u ''fix: ab'', u ''add: c'']
   \<and> normalize_messages example_reply \<noteq> claimed_normalize_messages example_reply"
  by code_simp

text \<open>
  C1, amended. For every response content string, the suggestion list consists of the lines
  of that string after the first that are longer than one character, in order, each
  stripped of surrounding whitespace, then of an initial list marker, then of one leading
  and one trailing quote character, then of every quote character directly before or
  after a colon and of every backslash-n sequence, and stripped of surrounding whitespace
  again. The lines are the pieces between the newlines: joined by newlines they give the
  string back, and none contains a newline.
\<close>

theorem normalize_messages_lines:
  "normalize_messages c = map clean_line (filter (\<lambda>l. 1 < length l) (drop 1 (str_split c [10])))
   \<and> join [10] (str_split c [10]) = c
   \<and> list_all (\<lambda>l. 10 \<notin> set l) (str_split c [10])"
proof (intro conjI)
  show "normalize_messages c =
      map clean_line (filter (\<lambda>l. 1 < length l) (drop 1 (str_split c [10])))"
    by (simp add: normalize_messages_eq normalize_message_filter_eq)
  show "join [10] (str_split c [10]) = c"
    using join_split_from[of "[10]" "[]" c] by (simp add: str_split_def)
  show "list_all (\<lambda>l. 10 \<notin> set l) (str_split c [10])"
    using split_from_pieces[of 10 "[]" c] by (simp add: str_split_def)
qed

theorem normalize_messages_lines_witness:
  "normalize_messages example_reply = [u ''fix: ab'', u ''add: c'']
   \<and> join [10] (str_split example_reply [10]) = example_reply"
proof -
  have "map clean_line (filter (\<lambda>l. 1 < length l) (drop 1 (str_split example_reply [10])))
      = [u ''fix: ab'', u ''add: c'']"
    by code_simp
  then show ?thesis
    using normalize_messages_lines [of example_reply] by simp
qed

end
